(* ===== verification/Prelude.thy ===== *)
theory Prelude
  imports Main "HOL-Library.Word" "HOL-Library.Multiset"
begin

text \<open>
  Shared vocabulary of the development: the machine-integer types of the C code, the named
  collections of rewrite rules that the component proofs use, and generic lemmas on lists,
  options and words that more than one component needs.
\<close>

unbundle bit_operations_syntax

section \<open>Machine integers\<close>

text \<open>
  The code is modelled for the LP64 ABIs (arm64-v8a, x86_64): \<open>int\<close> is 32 bits wide and
  \<open>size_t\<close>, \<open>long\<close> and pointers are 64 bits wide.
\<close>

type_synonym u8 = "8 word"
type_synonym u16 = "16 word"
type_synonym u32 = "32 word"
type_synonym u64 = "64 word"
type_synonym size_t = "64 word"

text \<open>Integer promotion of a plain \<open>char\<close>, whose signedness the ABI decides.\<close>

definition promote_char :: "bool \<Rightarrow> u8 \<Rightarrow> u32" where
  "promote_char is_signed c = (if is_signed then scast c else ucast c)"

named_theorems hm_simps \<open>unfolding rules of the hash map operations\<close>
named_theorems flag_simps \<open>rules that turn flag tests into single-bit tests\<close>
named_theorems mem_simps \<open>rules about reads after writes in the C memory\<close>

section \<open>Generic lemmas on words\<close>

lemma unat_and_mask_less:
  fixes x b :: "'a::len word"
  assumes "0 < b"
  shows "unat (x AND (b - 1)) < unat b"
proof -
  from assms have "b \<noteq> 0" by auto
  from assms have "0 < unat b" by (simp add: word_less_nat_alt)
  have "unat (x AND (b - 1)) \<le> unat (b - 1)"
    by (rule word_and_le1 [THEN word_le_nat_alt [THEN iffD1]])
  also have "unat (b - 1) < unat b"
    using \<open>b \<noteq> 0\<close> \<open>0 < unat b\<close> by (simp add: unat_minus_one)
  finally show ?thesis .
qed

lemma unat_two_power:
  "k < LENGTH('a) \<Longrightarrow> unat (2 ^ k :: 'a::len word) = 2 ^ k"
  by (simp add: of_nat_inverse)

text \<open>A property of a byte can be checked on the 256 bytes.\<close>

lemma u8_all:
  assumes "list_all (\<lambda>n. P (of_nat n :: u8)) [0..<256]"
  shows "P c"
proof -
  have "unat c < 2 ^ LENGTH(8)" by (rule unsigned_less)
  then have "unat c \<in> set [0..<256]" by simp
  then have "P (of_nat (unat c))" using assms by (simp only: list_all_iff)
  then show ?thesis by simp
qed

section \<open>Generic lemmas on lists\<close>

lemma concat_update_mset:
  assumes "i < length xss"
  shows "mset (concat (xss[i := ys])) + mset (xss ! i) = mset (concat xss) + mset ys"
  using assms
proof (induction xss arbitrary: i)
  case Nil
  then show ?case by simp
next
  case (Cons xs xss)
  then show ?case
    by (cases i) (auto simp: ac_simps)
qed

lemma concat_nth_split:
  "i < length xss \<Longrightarrow> concat xss = concat (take i xss) @ xss ! i @ concat (drop (Suc i) xss)"
  by (metis concat.simps(2) concat_append id_take_nth_drop)

lemma concat_update_split:
  "i < length xss \<Longrightarrow>
   concat (xss[i := ys]) = concat (take i xss) @ ys @ concat (drop (Suc i) xss)"
  by (simp add: upd_conv_take_nth_drop)

lemma find_snoc:
  "find P (xs @ [y]) = (case find P xs of Some x \<Rightarrow> Some x | None \<Rightarrow> if P y then Some y else None)"
  by (induction xs) auto

lemma option_eqI: "(\<And>v. x = Some v \<longleftrightarrow> y = Some v) \<Longrightarrow> x = y"
  by (cases x; cases y) auto

end
