(* ===== verification/KeyedMap.thy ===== *)
theory KeyedMap
  imports Prelude
begin

text \<open>
  The interface between the hash map and its clients: a store of values under keys, where keys
  are identified up to a given equivalence and an insertion may fail for lack of memory.  The
  lemmas inside the locale describe whole histories of operations against the mathematical map
  \<open>specOp\<close> updates.
\<close>

datatype ('a, 'k, 'v) mapOp = OpPut 'a 'k 'v | OpRemove 'k | OpClear

fun specOp :: "('k \<Rightarrow> 'k \<Rightarrow> bool) \<Rightarrow> ('a \<Rightarrow> bool) \<Rightarrow> ('a, 'k, 'v) mapOp
    \<Rightarrow> ('k \<Rightarrow> 'v option) \<Rightarrow> 'k \<Rightarrow> 'v option" where
  "specOp eqv ok (OpPut a k v) f =
     (if f k = None \<and> \<not> ok a then f else (\<lambda>k'. if eqv k k' then Some v else f k'))"
| "specOp eqv ok (OpRemove k) f = (\<lambda>k'. if eqv k k' then None else f k')"
| "specOp eqv ok OpClear f = (\<lambda>_. None)"

fun opKeys :: "('a, 'k, 'v) mapOp \<Rightarrow> 'k set" where
  "opKeys (OpPut a k v) = {k}"
| "opKeys (OpRemove k) = {k}"
| "opKeys OpClear = {}"

locale keyed_map =
  fixes inv :: "'s \<Rightarrow> bool"
    and look :: "'s \<Rightarrow> 'k \<Rightarrow> 'v option"
    and put :: "'a \<Rightarrow> 'k \<Rightarrow> 'v \<Rightarrow> 's \<Rightarrow> 's"
    and remove :: "'k \<Rightarrow> 's \<Rightarrow> 's"
    and clear :: "'s \<Rightarrow> 's"
    and count :: "'s \<Rightarrow> nat"
    and limit :: nat
    and ok :: "'a \<Rightarrow> bool"
    and eqv :: "'k \<Rightarrow> 'k \<Rightarrow> bool"
    and K :: "'k set"
  assumes inv_put: "\<lbrakk>inv s; k \<in> K; count s < limit\<rbrakk> \<Longrightarrow> inv (put a k v s)"
    and look_put: "\<lbrakk>inv s; k \<in> K; k' \<in> K; count s < limit\<rbrakk> \<Longrightarrow>
      look (put a k v s) k' =
        (if look s k = None \<and> \<not> ok a then look s k'
         else if eqv k k' then Some v else look s k')"
    and count_put: "\<lbrakk>inv s; k \<in> K; count s < limit\<rbrakk> \<Longrightarrow> count (put a k v s) \<le> Suc (count s)"
    and inv_remove: "\<lbrakk>inv s; k \<in> K\<rbrakk> \<Longrightarrow> inv (remove k s)"
    and look_remove: "\<lbrakk>inv s; k \<in> K; k' \<in> K\<rbrakk> \<Longrightarrow>
      look (remove k s) k' = (if eqv k k' then None else look s k')"
    and count_remove: "\<lbrakk>inv s; k \<in> K\<rbrakk> \<Longrightarrow> count (remove k s) \<le> count s"
    and inv_clear: "inv s \<Longrightarrow> inv (clear s)"
    and look_clear: "\<lbrakk>inv s; k \<in> K\<rbrakk> \<Longrightarrow> look (clear s) k = None"
    and count_clear: "inv s \<Longrightarrow> count (clear s) = 0"
begin

fun applyOp :: "('a, 'k, 'v) mapOp \<Rightarrow> 's \<Rightarrow> 's" where
  "applyOp (OpPut a k v) s = put a k v s"
| "applyOp (OpRemove k) s = remove k s"
| "applyOp OpClear s = clear s"

lemma applyOp_step:
  assumes "inv s" "opKeys x \<subseteq> K" "count s < limit"
  shows "inv (applyOp x s)" "count (applyOp x s) \<le> Suc (count s)"
    "k \<in> K \<Longrightarrow> (\<And>k. k \<in> K \<Longrightarrow> look s k = f k) \<Longrightarrow> look (applyOp x s) k = specOp eqv ok x f k"
  using assms inv_put count_put look_put inv_remove count_remove look_remove
    inv_clear count_clear look_clear
  by (cases x; auto intro: le_SucI)+

theorem history_refines_spec:
  assumes "inv s" "\<forall>x \<in> set xs. opKeys x \<subseteq> K" "count s + length xs \<le> limit"
    and "\<And>k. k \<in> K \<Longrightarrow> look s k = f k"
  shows "inv (fold applyOp xs s) \<and>
         (\<forall>k \<in> K. look (fold applyOp xs s) k = fold (specOp eqv ok) xs f k)"
  using assms
proof (induction xs arbitrary: s f)
  case Nil
  then show ?case by simp
next
  case (Cons x xs)
  have x: "opKeys x \<subseteq> K" and lt: "count s < limit" using Cons.prems by auto
  note step = applyOp_step [OF Cons.prems(1) x lt]
  have "count (applyOp x s) + length xs \<le> limit" using step(2) Cons.prems(3) by simp
  moreover have "look (applyOp x s) k = specOp eqv ok x f k" if "k \<in> K" for k
    using step(3) [OF that] Cons.prems(4) by blast
  ultimately show ?case using Cons.IH [of "applyOp x s" "specOp eqv ok x f"] step(1) Cons.prems(2)
    by simp
qed

end

end
