(* ===== verification/Hashmap.thy ===== *)
theory Hashmap
  imports KeyedMap
begin

text \<open>
  The chained hash map of \<open>hashmap.c\<close>.  A bucket chain is the list of the entries that are
  reachable through \<open>next\<close>; the code's \<open>Entry** p\<close> walk is recursion along that list.
  The two function pointers of the map read the C memory, so every operation takes the memory
  \<open>m\<close> that they read.  \<open>void*\<close> values live in a type with a distinguished \<open>0\<close> (NULL).
  The results of the allocator calls of one operation are its argument \<open>heap_res\<close>.
\<close>

section \<open>Data model\<close>

record ('k, 'v) Entry =
  key :: 'k
  ehash :: u32
  evalue :: 'v

record ('m, 'k, 'v) Hashmap =
  buckets :: "('k, 'v) Entry list list"
  bucketCount :: size_t
  hash_fn :: "'m \<Rightarrow> 'k \<Rightarrow> u32"
  equals_fn :: "'m \<Rightarrow> 'k \<Rightarrow> 'k \<Rightarrow> bool"
  mapSize :: size_t

text \<open>What the allocator answers to the (at most one) \<open>malloc\<close> and \<open>calloc\<close> of a call.\<close>

record heap_res =
  malloc_ok :: bool
  calloc_ok :: bool

datatype errno = ENOMEM

text \<open>\<open>calloc\<close> fails when the product of its arguments does not fit \<open>size_t\<close>.\<close>

definition calloc_succeeds :: "heap_res \<Rightarrow> size_t \<Rightarrow> nat \<Rightarrow> bool" where
  "calloc_succeeds a n sz \<longleftrightarrow> calloc_ok a \<and> unat n * sz < 2 ^ 64"

section \<open>Operations\<close>

text \<open>The loop of \<open>hashmapCreate\<close> that looks for a power of two above the wanted count.\<close>

partial_function (option) bucketCountLoop :: "size_t \<Rightarrow> size_t \<Rightarrow> size_t option" where
  "bucketCountLoop minimumBucketCount bc =
     (if bc \<le> minimumBucketCount then bucketCountLoop minimumBucketCount (push_bit 1 bc)
      else Some bc)"

declare bucketCountLoop.simps [code]

definition hashmapCreate ::
  "heap_res \<Rightarrow> size_t \<Rightarrow> ('m \<Rightarrow> 'k \<Rightarrow> u32) \<Rightarrow> ('m \<Rightarrow> 'k \<Rightarrow> 'k \<Rightarrow> bool)
    \<Rightarrow> ('m, 'k, 'v) Hashmap option option" where
  "hashmapCreate a initialCapacity h eq =
     (if \<not> malloc_ok a then Some None
      else let minimumBucketCount = initialCapacity * 4 div 3 in
        (case bucketCountLoop minimumBucketCount 1 of
           None \<Rightarrow> None
         | Some bc \<Rightarrow>
             if \<not> calloc_succeeds a bc 8 then Some None
             else Some (Some \<lparr>buckets = replicate (unat bc) [], bucketCount = bc,
                              hash_fn = h, equals_fn = eq, mapSize = 0\<rparr>)))"

text \<open>The secondary hashing of \<open>hashKey\<close>, then \<open>hashKey\<close> itself.\<close>

definition mixHash :: "u32 \<Rightarrow> u32" where
  "mixHash h0 =
     (let h1 = h0 + NOT (push_bit 9 h0);
          h2 = h1 XOR drop_bit 14 h1;
          h3 = h2 + push_bit 4 h2;
          h4 = h3 XOR drop_bit 10 h3
      in h4)"

definition hashKey :: "('m, 'k, 'v) Hashmap \<Rightarrow> 'm \<Rightarrow> 'k \<Rightarrow> u32" where
  "hashKey hm m k = mixHash (hash_fn hm m k)"

definition hashmapSize :: "('m, 'k, 'v) Hashmap \<Rightarrow> size_t" where
  "hashmapSize hm = mapSize hm"

definition calculateIndex :: "size_t \<Rightarrow> u32 \<Rightarrow> size_t" where
  "calculateIndex bc h = (scast h :: size_t) AND (bc - 1)"

text \<open>The two nested loops of \<open>expandIfNecessary\<close> that move the entries over.\<close>

fun moveChain :: "size_t \<Rightarrow> ('k, 'v) Entry list \<Rightarrow> ('k, 'v) Entry list list
    \<Rightarrow> ('k, 'v) Entry list list" where
  "moveChain n [] newBuckets = newBuckets"
| "moveChain n (entry # next) newBuckets =
     (let index = unat (calculateIndex n (ehash entry))
      in moveChain n next (newBuckets[index := entry # newBuckets ! index]))"

fun moveBuckets :: "size_t \<Rightarrow> ('k, 'v) Entry list list \<Rightarrow> ('k, 'v) Entry list list
    \<Rightarrow> ('k, 'v) Entry list list" where
  "moveBuckets n [] newBuckets = newBuckets"
| "moveBuckets n (b # bs) newBuckets = moveBuckets n bs (moveChain n b newBuckets)"

definition expandIfNecessary ::
  "heap_res \<Rightarrow> ('m, 'k, 'v) Hashmap \<Rightarrow> ('m, 'k, 'v) Hashmap" where
  "expandIfNecessary a hm =
     (if mapSize hm > bucketCount hm * 3 div 4 then
        let newBucketCount = push_bit 1 (bucketCount hm) in
        if \<not> calloc_succeeds a newBucketCount 8 then hm
        else hm\<lparr>buckets := moveBuckets newBucketCount (buckets hm)
                              (replicate (unat newBucketCount) []),
                 bucketCount := newBucketCount\<rparr>
      else hm)"

text \<open>\<open>hashmapClear\<close> also returns the entries it frees, in the order it frees them.\<close>

fun clearChain :: "('k, 'v) Entry list \<Rightarrow> ('k, 'v) Entry list \<Rightarrow> ('k, 'v) Entry list" where
  "clearChain freed [] = freed"
| "clearChain freed (entry # next) = clearChain (freed @ [entry]) next"

fun clearBuckets :: "('k, 'v) Entry list \<Rightarrow> ('k, 'v) Entry list list \<Rightarrow> ('k, 'v) Entry list" where
  "clearBuckets freed [] = freed"
| "clearBuckets freed (b # bs) = clearBuckets (clearChain freed b) bs"

definition hashmapClear ::
  "('m, 'k, 'v) Hashmap \<Rightarrow> ('k, 'v) Entry list \<times> ('m, 'k, 'v) Hashmap" where
  "hashmapClear hm =
     (clearBuckets [] (buckets hm),
      hm\<lparr>buckets := replicate (unat (bucketCount hm)) [], mapSize := 0\<rparr>)"

definition hashmapFree :: "('m, 'k, 'v) Hashmap \<Rightarrow> ('k, 'v) Entry list" where
  "hashmapFree hm = fst (hashmapClear hm)"

text \<open>\<open>sc\<close> says whether the ABI's plain \<open>char\<close> is signed.\<close>

fun hashmapHashLoop :: "bool \<Rightarrow> u32 \<Rightarrow> u8 list \<Rightarrow> u32" where
  "hashmapHashLoop sc h [] = h"
| "hashmapHashLoop sc h (c # cs) = hashmapHashLoop sc (h * 31 + promote_char sc c) cs"

definition hashmapHash :: "bool \<Rightarrow> u8 list \<Rightarrow> u32" where
  "hashmapHash sc data = hashmapHashLoop sc (of_nat (length data)) data"

definition createEntry :: "heap_res \<Rightarrow> 'k \<Rightarrow> u32 \<Rightarrow> 'v \<Rightarrow> ('k, 'v) Entry option" where
  "createEntry a k h v =
     (if \<not> malloc_ok a then None else Some \<lparr>key = k, ehash = h, evalue = v\<rparr>)"

definition equalKeys :: "'k \<Rightarrow> u32 \<Rightarrow> 'k \<Rightarrow> u32 \<Rightarrow> ('k \<Rightarrow> 'k \<Rightarrow> bool) \<Rightarrow> bool" where
  "equalKeys keyA hashA keyB hashB eq =
     (if keyA = keyB then True
      else if hashA \<noteq> hashB then False
      else eq keyA keyB)"

text \<open>The test every chain walk makes on the current entry.\<close>

definition matches :: "('m, 'k, 'v) Hashmap \<Rightarrow> 'm \<Rightarrow> 'k \<Rightarrow> ('k, 'v) Entry \<Rightarrow> bool" where
  "matches hm m k e = equalKeys (key e) (ehash e) k (hashKey hm m k) (equals_fn hm m)"

definition bucketIndex :: "('m, 'k, 'v) Hashmap \<Rightarrow> 'm \<Rightarrow> 'k \<Rightarrow> nat" where
  "bucketIndex hm m k = unat (calculateIndex (bucketCount hm) (hashKey hm m k))"

fun findEntry :: "(('k, 'v) Entry \<Rightarrow> bool) \<Rightarrow> ('k, 'v) Entry list \<Rightarrow> nat option" where
  "findEntry t [] = None"
| "findEntry t (current # next) =
     (if t current then Some 0 else map_option Suc (findEntry t next))"

text \<open>
  \<open>entryGet\<close> returns a pointer to the entry; here it is the entry's place, bucket and position.
\<close>

definition entryGet :: "'m \<Rightarrow> ('m, 'k, 'v) Hashmap \<Rightarrow> 'k \<Rightarrow> (nat \<times> nat) option" where
  "entryGet m hm k =
     (let index = bucketIndex hm m k
      in map_option (\<lambda>pos. (index, pos)) (findEntry (matches hm m k) (buckets hm ! index)))"

definition entryAt :: "('m, 'k, 'v) Hashmap \<Rightarrow> nat \<times> nat \<Rightarrow> ('k, 'v) Entry" where
  "entryAt hm p = buckets hm ! fst p ! snd p"

definition setEntryValue ::
  "('m, 'k, 'v) Hashmap \<Rightarrow> nat \<times> nat \<Rightarrow> 'v \<Rightarrow> ('m, 'k, 'v) Hashmap" where
  "setEntryValue hm p v =
     hm\<lparr>buckets := (buckets hm)[fst p := (buckets hm ! fst p)[snd p := (entryAt hm p)\<lparr>evalue := v\<rparr>]]\<rparr>"

text \<open>The walk of \<open>hashmapPut\<close>: the old value when an entry was replaced.\<close>

fun putChain :: "(('k, 'v) Entry \<Rightarrow> bool) \<Rightarrow> ('k, 'v) Entry option \<Rightarrow> 'v
    \<Rightarrow> ('k, 'v) Entry list \<Rightarrow> 'v option \<times> ('k, 'v) Entry list" where
  "putChain t new v [] = (None, case new of None \<Rightarrow> [] | Some e \<Rightarrow> [e])"
| "putChain t new v (current # next) =
     (if t current then (Some (evalue current), current\<lparr>evalue := v\<rparr> # next)
      else let (r, next') = putChain t new v next in (r, current # next'))"

definition hashmapPut ::
  "heap_res \<Rightarrow> 'm \<Rightarrow> ('m, 'k, 'v::zero) Hashmap \<Rightarrow> 'k \<Rightarrow> 'v
    \<Rightarrow> 'v \<times> errno option \<times> ('m, 'k, 'v) Hashmap" where
  "hashmapPut a m hm k v =
     (let h = hashKey hm m k;
          index = bucketIndex hm m k;
          new = createEntry a k h v;
          (old, chain) = putChain (matches hm m k) new v (buckets hm ! index);
          hm' = hm\<lparr>buckets := (buckets hm)[index := chain]\<rparr>
      in case old of
           Some oldValue \<Rightarrow> (oldValue, None, hm')
         | None \<Rightarrow>
             (case new of
                None \<Rightarrow> (0, Some ENOMEM, hm')
              | Some _ \<Rightarrow> (0, None, expandIfNecessary a (hm'\<lparr>mapSize := mapSize hm' + 1\<rparr>))))"

fun getLoop :: "(('k, 'v) Entry \<Rightarrow> bool) \<Rightarrow> ('k, 'v::zero) Entry list \<Rightarrow> 'v" where
  "getLoop t [] = 0"
| "getLoop t (entry # next) = (if t entry then evalue entry else getLoop t next)"

definition hashmapGet :: "'m \<Rightarrow> ('m, 'k, 'v::zero) Hashmap \<Rightarrow> 'k \<Rightarrow> 'v" where
  "hashmapGet m hm k = getLoop (matches hm m k) (buckets hm ! bucketIndex hm m k)"

fun containsLoop :: "(('k, 'v) Entry \<Rightarrow> bool) \<Rightarrow> ('k, 'v) Entry list \<Rightarrow> bool" where
  "containsLoop t [] = False"
| "containsLoop t (entry # next) = (if t entry then True else containsLoop t next)"

definition hashmapContainsKey :: "'m \<Rightarrow> ('m, 'k, 'v) Hashmap \<Rightarrow> 'k \<Rightarrow> bool" where
  "hashmapContainsKey m hm k = containsLoop (matches hm m k) (buckets hm ! bucketIndex hm m k)"

text \<open>The walk of \<open>hashmapMemoize\<close>: the value found, or the chain with the new entry.\<close>

fun memoizeChain :: "(('k, 'v) Entry \<Rightarrow> bool) \<Rightarrow> ('k, 'v) Entry option
    \<Rightarrow> ('k, 'v) Entry list \<Rightarrow> 'v option \<times> ('k, 'v) Entry list" where
  "memoizeChain t new [] = (None, case new of None \<Rightarrow> [] | Some e \<Rightarrow> [e])"
| "memoizeChain t new (current # next) =
     (if t current then (Some (evalue current), current # next)
      else let (r, next') = memoizeChain t new next in (r, current # next'))"

definition hashmapMemoize ::
  "heap_res \<Rightarrow> 'm \<Rightarrow> ('m, 'k, 'v::zero) Hashmap \<Rightarrow> 'k \<Rightarrow> ('k \<Rightarrow> 'v)
    \<Rightarrow> 'v \<times> errno option \<times> ('m, 'k, 'v) Hashmap" where
  "hashmapMemoize a m hm k initialValue =
     (let h = hashKey hm m k;
          index = bucketIndex hm m k;
          new = map_option (\<lambda>e. e\<lparr>evalue := initialValue k\<rparr>) (createEntry a k h 0);
          (found, chain) = memoizeChain (matches hm m k) new (buckets hm ! index);
          hm' = hm\<lparr>buckets := (buckets hm)[index := chain]\<rparr>
      in case found of
           Some v \<Rightarrow> (v, None, hm')
         | None \<Rightarrow>
             (case new of
                None \<Rightarrow> (0, Some ENOMEM, hm')
              | Some e \<Rightarrow>
                  (evalue e, None, expandIfNecessary a (hm'\<lparr>mapSize := mapSize hm' + 1\<rparr>))))"

fun removeChain :: "(('k, 'v) Entry \<Rightarrow> bool) \<Rightarrow> ('k, 'v) Entry list
    \<Rightarrow> ('k, 'v) Entry option \<times> ('k, 'v) Entry list" where
  "removeChain t [] = (None, [])"
| "removeChain t (current # next) =
     (if t current then (Some current, next)
      else let (r, next') = removeChain t next in (r, current # next'))"

definition hashmapRemove ::
  "'m \<Rightarrow> ('m, 'k, 'v::zero) Hashmap \<Rightarrow> 'k \<Rightarrow> 'v \<times> ('m, 'k, 'v) Hashmap" where
  "hashmapRemove m hm k =
     (let index = bucketIndex hm m k;
          (removed, chain) = removeChain (matches hm m k) (buckets hm ! index);
          hm' = hm\<lparr>buckets := (buckets hm)[index := chain]\<rparr>
      in case removed of
           Some e \<Rightarrow> (evalue e, hm'\<lparr>mapSize := mapSize hm' - 1\<rparr>)
         | None \<Rightarrow> (0, hm'))"

text \<open>\<open>hashmapForEach\<close>: the callback updates its context and says whether to go on.\<close>

fun forEachChain :: "('k \<Rightarrow> 'v \<Rightarrow> 'c \<Rightarrow> bool \<times> 'c) \<Rightarrow> ('k, 'v) Entry list \<Rightarrow> 'c
    \<Rightarrow> bool \<times> 'c" where
  "forEachChain callback [] ctx = (True, ctx)"
| "forEachChain callback (entry # next) ctx =
     (case callback (key entry) (evalue entry) ctx of
        (goOn, ctx') \<Rightarrow> if \<not> goOn then (False, ctx') else forEachChain callback next ctx')"

fun forEachBuckets :: "('k \<Rightarrow> 'v \<Rightarrow> 'c \<Rightarrow> bool \<times> 'c) \<Rightarrow> ('k, 'v) Entry list list \<Rightarrow> 'c \<Rightarrow> 'c" where
  "forEachBuckets callback [] ctx = ctx"
| "forEachBuckets callback (b # bs) ctx =
     (case forEachChain callback b ctx of
        (goOn, ctx') \<Rightarrow> if \<not> goOn then ctx' else forEachBuckets callback bs ctx')"

definition hashmapForEach ::
  "('m, 'k, 'v) Hashmap \<Rightarrow> ('k \<Rightarrow> 'v \<Rightarrow> 'c \<Rightarrow> bool \<times> 'c) \<Rightarrow> 'c \<Rightarrow> 'c" where
  "hashmapForEach hm callback ctx = forEachBuckets callback (buckets hm) ctx"

definition hashmapCurrentCapacity :: "('m, 'k, 'v) Hashmap \<Rightarrow> size_t" where
  "hashmapCurrentCapacity hm = bucketCount hm * 3 div 4"

fun collisionsChain :: "size_t \<Rightarrow> ('k, 'v) Entry list \<Rightarrow> size_t" where
  "collisionsChain c [] = c"
| "collisionsChain c (entry # next) =
     collisionsChain (if next \<noteq> [] then c + 1 else c) next"

fun collisionsBuckets :: "size_t \<Rightarrow> ('k, 'v) Entry list list \<Rightarrow> size_t" where
  "collisionsBuckets c [] = c"
| "collisionsBuckets c (b # bs) = collisionsBuckets (collisionsChain c b) bs"

definition hashmapCountCollisions :: "('m, 'k, 'v) Hashmap \<Rightarrow> size_t" where
  "hashmapCountCollisions hm = collisionsBuckets 0 (buckets hm)"

text \<open>The key utilities for keys that point to an \<open>int\<close>: \<open>m p\<close> is the \<open>int\<close> at \<open>p\<close>.\<close>

definition hashmapIntHash :: "(int \<Rightarrow> u32) \<Rightarrow> int \<Rightarrow> u32" where
  "hashmapIntHash m p = m p"

definition hashmapIntEquals :: "(int \<Rightarrow> u32) \<Rightarrow> int \<Rightarrow> int \<Rightarrow> bool" where
  "hashmapIntEquals m p q = (let a = m p; b = m q in a = b)"

section \<open>Invariant and abstraction\<close>

definition entries :: "('m, 'k, 'v) Hashmap \<Rightarrow> ('k, 'v) Entry list" where
  "entries hm = concat (buckets hm)"

text \<open>When two keys are the same key for a map with these two function pointers.\<close>

definition keyEquiv :: "('m \<Rightarrow> 'k \<Rightarrow> u32) \<Rightarrow> ('m \<Rightarrow> 'k \<Rightarrow> 'k \<Rightarrow> bool) \<Rightarrow> 'm \<Rightarrow> 'k \<Rightarrow> 'k \<Rightarrow> bool" where
  "keyEquiv hf eqf m x y = equalKeys x (mixHash (hf m x)) y (mixHash (hf m y)) (eqf m)"

definition wellPlaced :: "size_t \<Rightarrow> ('k, 'v) Entry list list \<Rightarrow> bool" where
  "wellPlaced n bs \<longleftrightarrow>
     length bs = unat n \<and>
     (\<forall>i < length bs. \<forall>e \<in> set (bs ! i). unat (calculateIndex n (ehash e)) = i)"

definition powerOfTwoCount :: "size_t \<Rightarrow> bool" where
  "powerOfTwoCount n \<longleftrightarrow> (\<exists>k\<le>60. n = 2 ^ k)"

text \<open>
  The representation invariant: a power-of-two bucket array, every entry in the bucket its
  stored hash selects, stored hashes up to date, the size field exact, and no two entries with
  the same key.  \<open>K\<close> is the set of keys the map is used with.
\<close>

definition entriesOk ::
  "'k set \<Rightarrow> ('m \<Rightarrow> 'k \<Rightarrow> u32) \<Rightarrow> ('m \<Rightarrow> 'k \<Rightarrow> 'k \<Rightarrow> bool) \<Rightarrow> 'm \<Rightarrow> ('k, 'v) Entry list \<Rightarrow> bool" where
  "entriesOk K hf eqf m es \<longleftrightarrow>
     (\<forall>e \<in> set es. key e \<in> K \<and> ehash e = mixHash (hf m (key e))) \<and>
     distinct es \<and>
     (\<forall>e \<in> set es. \<forall>e' \<in> set es. keyEquiv hf eqf m (key e) (key e') \<longrightarrow> e = e')"

definition hashmapInv :: "'k set \<Rightarrow> 'm \<Rightarrow> ('m, 'k, 'v) Hashmap \<Rightarrow> bool" where
  "hashmapInv K m hm \<longleftrightarrow>
     powerOfTwoCount (bucketCount hm) \<and>
     wellPlaced (bucketCount hm) (buckets hm) \<and>
     entriesOk K (hash_fn hm) (equals_fn hm) m (entries hm) \<and>
     unat (mapSize hm) = length (entries hm)"

text \<open>A map that satisfies its invariant and was created with these function pointers.\<close>

definition hashmapFor :: "'k set \<Rightarrow> ('m \<Rightarrow> 'k \<Rightarrow> u32) \<Rightarrow> ('m \<Rightarrow> 'k \<Rightarrow> 'k \<Rightarrow> bool) \<Rightarrow> 'm
    \<Rightarrow> ('m, 'k, 'v) Hashmap \<Rightarrow> bool" where
  "hashmapFor K hf eqf m hm \<longleftrightarrow> hashmapInv K m hm \<and> hash_fn hm = hf \<and> equals_fn hm = eqf"

text \<open>The map a hash map stands for: the value of the entry with that key, wherever it is.\<close>

definition hmLookup :: "'m \<Rightarrow> ('m, 'k, 'v) Hashmap \<Rightarrow> 'k \<Rightarrow> 'v option" where
  "hmLookup m hm k = map_option evalue (find (matches hm m k) (entries hm))"

section \<open>Lemmas on the chain walks\<close>

lemma find_None_iff_all: "find t es = None \<longleftrightarrow> (\<forall>e \<in> set es. \<not> t e)"
  by (auto simp: find_None_iff)

lemma findEntry_eq_None [simp]: "findEntry t es = None \<longleftrightarrow> (\<forall>e \<in> set es. \<not> t e)"
  by (induction es) auto

lemma findEntry_Some:
  "findEntry t es = Some i \<Longrightarrow> i < length es \<and> t (es ! i) \<and> find t es = Some (es ! i)"
  by (induction es arbitrary: i) (auto split: if_splits)

lemma getLoop_find: "getLoop t es = (case find t es of None \<Rightarrow> 0 | Some e \<Rightarrow> evalue e)"
  by (induction es) auto

lemma containsLoop_iff [simp]: "containsLoop t es \<longleftrightarrow> (\<exists>e \<in> set es. t e)"
  by (induction es) auto

lemma putChain_miss:
  "\<forall>e \<in> set es. \<not> t e \<Longrightarrow>
   putChain t new v es = (None, es @ (case new of None \<Rightarrow> [] | Some e \<Rightarrow> [e]))"
  by (induction es) auto

lemma putChain_hit:
  "\<forall>e \<in> set pre. \<not> t e \<Longrightarrow> t e \<Longrightarrow>
   putChain t new v (pre @ e # post) = (Some (evalue e), pre @ e\<lparr>evalue := v\<rparr> # post)"
  by (induction pre) auto

lemma memoizeChain_miss:
  "\<forall>e \<in> set es. \<not> t e \<Longrightarrow>
   memoizeChain t new es = (None, es @ (case new of None \<Rightarrow> [] | Some e \<Rightarrow> [e]))"
  by (induction es) auto

lemma memoizeChain_hit:
  "\<forall>e \<in> set pre. \<not> t e \<Longrightarrow> t e \<Longrightarrow>
   memoizeChain t new (pre @ e # post) = (Some (evalue e), pre @ e # post)"
  by (induction pre) auto

lemma removeChain_miss: "\<forall>e \<in> set es. \<not> t e \<Longrightarrow> removeChain t es = (None, es)"
  by (induction es) auto

lemma removeChain_hit:
  "\<forall>e \<in> set pre. \<not> t e \<Longrightarrow> t e \<Longrightarrow> removeChain t (pre @ e # post) = (Some e, pre @ post)"
  by (induction pre) auto

lemma chain_cases:
  obtains (miss) "\<forall>e \<in> set es. \<not> t e"
  | (hit) pre e post where "es = pre @ e # post" "t e" "\<forall>e \<in> set pre. \<not> t e"
  using split_list_first_prop [of es t] by blast

section \<open>Bucket placement\<close>

lemma calculateIndex_less: "0 < n \<Longrightarrow> unat (calculateIndex n h) < unat n"
  unfolding calculateIndex_def by (rule unat_and_mask_less)

lemma length_moveChain [simp]: "length (moveChain n es nb) = length nb"
  by (induction es arbitrary: nb) (auto simp: Let_def)

lemma length_moveBuckets [simp]: "length (moveBuckets n bs nb) = length nb"
  by (induction bs arbitrary: nb) auto

lemma wellPlaced_update:
  assumes "wellPlaced n bs"
    and "\<forall>e \<in> set es. unat (calculateIndex n (ehash e)) = i"
  shows "wellPlaced n (bs[i := es])"
  using assms unfolding wellPlaced_def
  by (cases "i < length bs") (auto simp: nth_list_update list_update_beyond split: if_splits)

lemma wellPlaced_replicate: "wellPlaced n (replicate (unat n) [])"
  by (simp add: wellPlaced_def)

lemma moveChain_wellPlaced:
  assumes "wellPlaced n nb" "0 < n"
  shows "wellPlaced n (moveChain n es nb) \<and>
         mset (concat (moveChain n es nb)) = mset (concat nb) + mset es"
  using assms
proof (induction es arbitrary: nb)
  case Nil
  then show ?case by simp
next
  case (Cons e es)
  define i where "i = unat (calculateIndex n (ehash e))"
  let ?nb = "nb[i := e # nb ! i]"
  have i: "i < length nb"
    using Cons.prems calculateIndex_less [of n] by (simp add: i_def wellPlaced_def)
  have "wellPlaced n ?nb"
    using Cons.prems i by (intro wellPlaced_update) (auto simp: i_def wellPlaced_def)
  then have IH: "wellPlaced n (moveChain n es ?nb) \<and>
      mset (concat (moveChain n es ?nb)) = mset (concat ?nb) + mset es"
    using Cons.IH Cons.prems by blast
  have "mset (concat ?nb) = add_mset e (mset (concat nb))"
    using concat_update_mset [OF i, of "e # nb ! i"] by simp
  with IH show ?case by (simp add: Let_def i_def)
qed

lemma moveBuckets_wellPlaced:
  assumes "wellPlaced n nb" "0 < n"
  shows "wellPlaced n (moveBuckets n bs nb) \<and>
         mset (concat (moveBuckets n bs nb)) = mset (concat nb) + mset (concat bs)"
  using assms(1)
proof (induction bs arbitrary: nb)
  case Nil
  then show ?case by simp
next
  case (Cons b bs)
  from moveChain_wellPlaced [OF Cons.prems assms(2), of b]
  have "wellPlaced n (moveChain n b nb)"
    and "mset (concat (moveChain n b nb)) = mset (concat nb) + mset b" by auto
  with Cons.IH [of "moveChain n b nb"] show ?case by (simp add: ac_simps)
qed

lemma powerOfTwoCount_pos: "powerOfTwoCount n \<Longrightarrow> 0 < n"
  by (auto simp: powerOfTwoCount_def word_less_nat_alt unat_two_power)

lemma powerOfTwoCount_unat: "powerOfTwoCount n \<Longrightarrow> unat n \<le> 2 ^ 60"
  using power_increasing [of _ 60 "2::nat"] by (auto simp: powerOfTwoCount_def unat_two_power)

lemma powerOfTwoCount_shift:
  assumes "powerOfTwoCount n" and "unat n * 16 < 2 ^ 64"
  shows "powerOfTwoCount (push_bit 1 n) \<and> unat (push_bit 1 n) = 2 * unat n"
proof -
  from assms(1) obtain k where k: "k \<le> 60" "n = 2 ^ k" by (auto simp: powerOfTwoCount_def)
  have shift: "push_bit 1 n = 2 ^ Suc k" using k by (simp add: push_bit_eq_mult)
  have "(2::nat) ^ k * 2 ^ 4 < 2 ^ 64" using assms(2) k by (simp add: unat_two_power)
  then have "(2::nat) ^ (k + 4) < 2 ^ 64" by (simp add: power_add)
  then have "k + 4 < 64" by (rule power_less_imp_less_exp [rotated]) simp
  then have k': "Suc k \<le> 60" by simp
  then have "powerOfTwoCount (push_bit 1 n)" unfolding shift powerOfTwoCount_def by blast
  moreover have "unat (2 ^ Suc k :: size_t) = 2 ^ Suc k"
    using k' by (intro unat_two_power) simp
  moreover have "unat n = 2 ^ k" using k by (simp add: unat_two_power)
  ultimately show ?thesis unfolding shift by simp
qed

lemma bucketIndex_less:
  "hashmapInv K m hm \<Longrightarrow> bucketIndex hm m k < length (buckets hm)"
  using calculateIndex_less powerOfTwoCount_pos
  by (fastforce simp: hashmapInv_def bucketIndex_def wellPlaced_def)

lemma bucket_subset: "i < length (buckets hm) \<Longrightarrow> set (buckets hm ! i) \<subseteq> set (entries hm)"
  using nth_mem by (fastforce simp: entries_def)

lemma expand_places:
  assumes p2: "powerOfTwoCount (bucketCount hm)" and wp: "wellPlaced (bucketCount hm) (buckets hm)"
  shows "powerOfTwoCount (bucketCount (expandIfNecessary a hm))"
    "wellPlaced (bucketCount (expandIfNecessary a hm)) (buckets (expandIfNecessary a hm))"
    "mset (entries (expandIfNecessary a hm)) = mset (entries hm)"
    "mapSize (expandIfNecessary a hm) = mapSize hm"
    "hash_fn (expandIfNecessary a hm) = hash_fn hm" "equals_fn (expandIfNecessary a hm) = equals_fn hm"
proof -
  let ?n = "push_bit 1 (bucketCount hm)"
  let ?bs = "moveBuckets ?n (buckets hm) (replicate (unat ?n) [])"
  have moved: "powerOfTwoCount ?n \<and> wellPlaced ?n ?bs \<and> mset (concat ?bs) = mset (concat (buckets hm))"
    if "calloc_succeeds a ?n 8"
  proof -
    have "unat (bucketCount hm) \<noteq> 2 ^ 60"
    proof
      assume "unat (bucketCount hm) = 2 ^ 60"
      then have "bucketCount hm = 2 ^ 60" by (simp add: word_unat_eq_iff)
      with that show False by (simp add: calloc_succeeds_def)
    qed
    then have "unat (bucketCount hm) * 16 < 2 ^ 64" using powerOfTwoCount_unat [OF p2] by simp
    then have "powerOfTwoCount ?n" using powerOfTwoCount_shift [OF p2] by blast
    then show ?thesis
      using moveBuckets_wellPlaced [OF wellPlaced_replicate powerOfTwoCount_pos, of ?n "buckets hm"] by simp
  qed
  show "powerOfTwoCount (bucketCount (expandIfNecessary a hm))"
    "wellPlaced (bucketCount (expandIfNecessary a hm)) (buckets (expandIfNecessary a hm))"
    "mset (entries (expandIfNecessary a hm)) = mset (entries hm)"
    "mapSize (expandIfNecessary a hm) = mapSize hm"
    "hash_fn (expandIfNecessary a hm) = hash_fn hm" "equals_fn (expandIfNecessary a hm) = equals_fn hm"
    using moved p2 wp by (simp_all add: expandIfNecessary_def entries_def Let_def)
qed

section \<open>Entry lists up to order\<close>

lemma entriesOk_mset:
  assumes "mset es = mset es'"
  shows "entriesOk K hf eqf m es \<longleftrightarrow> entriesOk K hf eqf m es'"
  using mset_eq_setD [OF assms] mset_eq_imp_distinct_iff [OF assms] by (simp add: entriesOk_def)

lemma keyEquiv_refl [simp]: "keyEquiv hf eqf m x x"
  by (simp add: keyEquiv_def equalKeys_def)

lemma keyEquiv_hash: "keyEquiv hf eqf m x y \<Longrightarrow> mixHash (hf m x) = mixHash (hf m y)"
  by (auto simp: keyEquiv_def equalKeys_def split: if_splits)

lemma matches_keyEquiv:
  "ehash e = mixHash (hash_fn hm m (key e)) \<Longrightarrow>
   matches hm m k e \<longleftrightarrow> keyEquiv (hash_fn hm) (equals_fn hm) m (key e) k"
  by (simp add: matches_def keyEquiv_def hashKey_def)

lemma entriesOk_matches:
  "entriesOk K (hash_fn hm) (equals_fn hm) m es \<Longrightarrow> e \<in> set es \<Longrightarrow>
   matches hm m k e \<longleftrightarrow> keyEquiv (hash_fn hm) (equals_fn hm) m (key e) k"
  by (rule matches_keyEquiv) (simp add: entriesOk_def)

lemma match_in_bucket:
  assumes "hashmapInv K m hm" "e \<in> set (entries hm)" "matches hm m k e"
  shows "e \<in> set (buckets hm ! bucketIndex hm m k)"
proof -
  obtain i where i: "i < length (buckets hm)" "e \<in> set (buckets hm ! i)"
    using assms(2) by (auto simp: entries_def in_set_conv_nth [of _ "buckets hm"])
  have ok: "entriesOk K (hash_fn hm) (equals_fn hm) m (entries hm)"
    and wp: "wellPlaced (bucketCount hm) (buckets hm)"
    using assms(1) by (auto simp: hashmapInv_def)
  have "ehash e = hashKey hm m k"
    using entriesOk_matches [OF ok assms(2), of k] assms(2,3) ok
    by (auto simp: hashKey_def entriesOk_def dest: keyEquiv_hash)
  then have "bucketIndex hm m k = i"
    using wp i unfolding bucketIndex_def wellPlaced_def by metis
  with i show ?thesis by simp
qed

section \<open>The key contract\<close>

text \<open>
  What a client has to promise about its two function pointers, on the keys it uses and in
  the memory they read: together with the pointer and hash comparison of \<open>equalKeys\<close> they
  are an equivalence relation.  Everything the map promises is proved under this contract.
\<close>

locale hash_keys =
  fixes hf :: "'m \<Rightarrow> 'k \<Rightarrow> u32"
    and eqf :: "'m \<Rightarrow> 'k \<Rightarrow> 'k \<Rightarrow> bool"
    and m :: 'm
    and K :: "'k set"
  assumes equiv_sym:
      "\<lbrakk>x \<in> K; y \<in> K; keyEquiv hf eqf m x y\<rbrakk> \<Longrightarrow> keyEquiv hf eqf m y x"
    and equiv_trans:
      "\<lbrakk>x \<in> K; y \<in> K; z \<in> K; keyEquiv hf eqf m x y; keyEquiv hf eqf m y z\<rbrakk>
        \<Longrightarrow> keyEquiv hf eqf m x z"
begin

lemma one_entry_per_key:
  assumes "entriesOk K hf eqf m es" "k \<in> K" "e \<in> set es" "e' \<in> set es"
    and "keyEquiv hf eqf m (key e) k" "keyEquiv hf eqf m (key e') k"
  shows "e = e'"
proof -
  have "key e \<in> K" "key e' \<in> K" using assms by (auto simp: entriesOk_def)
  then have "keyEquiv hf eqf m (key e) (key e')"
    using assms equiv_sym equiv_trans by blast
  then show ?thesis using assms by (auto simp: entriesOk_def)
qed

lemma forD:
  assumes "hashmapFor K hf eqf m hm"
  shows "hashmapInv K m hm" "hash_fn hm = hf" "equals_fn hm = eqf"
    "entriesOk K hf eqf m (entries hm)"
  using assms by (auto simp: hashmapFor_def hashmapInv_def)

lemma matches_equiv:
  assumes "hashmapFor K hf eqf m hm" "e \<in> set (entries hm)"
  shows "matches hm m k e \<longleftrightarrow> keyEquiv hf eqf m (key e) k"
  using entriesOk_matches [of K hm m "entries hm" e k] forD [OF assms(1)] assms(2) by simp

lemma lookup_iff:
  assumes "hashmapFor K hf eqf m hm" "k \<in> K"
  shows "hmLookup m hm k = Some v \<longleftrightarrow>
    (\<exists>e \<in> set (entries hm). keyEquiv hf eqf m (key e) k \<and> evalue e = v)"
proof (cases "find (matches hm m k) (entries hm)")
  case None
  then have "\<forall>e \<in> set (entries hm). \<not> matches hm m k e" by (simp add: find_None_iff_all)
  with None show ?thesis using matches_equiv [OF assms(1)] by (auto simp: hmLookup_def)
next
  case (Some e)
  then have "e \<in> set (entries hm)" "matches hm m k e"
    by (auto simp: find_Some_iff)
  then show ?thesis
    using Some matches_equiv [OF assms(1)] one_entry_per_key [OF forD(4) [OF assms(1)] assms(2)]
    by (auto simp: hmLookup_def)
qed

lemma lookup_None:
  assumes "hashmapFor K hf eqf m hm" "k \<in> K"
  shows "hmLookup m hm k = None \<longleftrightarrow> (\<forall>e \<in> set (entries hm). \<not> keyEquiv hf eqf m (key e) k)"
  using lookup_iff [OF assms] by (metis not_Some_eq)

lemma find_bucket:
  assumes "hashmapFor K hf eqf m hm" "k \<in> K"
  shows "find (matches hm m k) (buckets hm ! bucketIndex hm m k) = find (matches hm m k) (entries hm)"
    (is "find ?t ?b = find ?t ?es")
proof -
  note inv = forD(1) [OF assms(1)]
  have sub: "set ?b \<subseteq> set ?es" by (rule bucket_subset) (rule bucketIndex_less [OF inv])
  show ?thesis
  proof (cases "find ?t ?es")
    case None
    with sub show ?thesis by (metis find_None_iff_all subsetD)
  next
    case (Some e)
    then have e: "e \<in> set ?es" "?t e" by (auto simp: find_Some_iff)
    have "e \<in> set ?b" using match_in_bucket [OF inv e] .
    then obtain e' where e': "find ?t ?b = Some e'"
      using e(2) by (cases "find ?t ?b") (auto simp: find_None_iff)
    then have "e' \<in> set ?b" "?t e'" by (auto simp: find_Some_iff)
    then have "e' = e"
      using e sub one_entry_per_key [OF forD(4) [OF assms(1)] assms(2)] matches_equiv [OF assms(1)]
      by blast
    with Some e' show ?thesis by simp
  qed
qed

lemma bucket_miss:
  assumes "hashmapFor K hf eqf m hm" "k \<in> K"
  shows "hmLookup m hm k = None \<longleftrightarrow> (\<forall>e \<in> set (buckets hm ! bucketIndex hm m k). \<not> matches hm m k e)"
  using find_bucket [OF assms] by (metis find_None_iff_all hmLookup_def map_option_is_None)

lemma get_lookup:
  assumes "hashmapFor K hf eqf m hm" "k \<in> K"
  shows "hashmapGet m hm k = (case hmLookup m hm k of None \<Rightarrow> 0 | Some v \<Rightarrow> v)"
  using find_bucket [OF assms]
  by (simp add: hashmapGet_def getLoop_find hmLookup_def split: option.splits)

lemma contains_lookup:
  assumes "hashmapFor K hf eqf m hm" "k \<in> K"
  shows "hashmapContainsKey m hm k \<longleftrightarrow> hmLookup m hm k \<noteq> None"
  using find_bucket [OF assms]
  by (metis (mono_tags, lifting) containsLoop_iff find_None_iff_all hashmapContainsKey_def
      hmLookup_def map_option_is_None)

lemma entriesOk_replace:
  assumes "entriesOk K hf eqf m (A @ e # B)"
  shows "entriesOk K hf eqf m (A @ e\<lparr>evalue := v\<rparr> # B)"
proof -
  have "e\<lparr>evalue := v\<rparr> \<notin> set A \<union> set B"
  proof
    assume in_AB: "e\<lparr>evalue := v\<rparr> \<in> set A \<union> set B"
    then have "e\<lparr>evalue := v\<rparr> = e"
      using assms by (auto simp: entriesOk_def)
    with in_AB show False using assms by (auto simp: entriesOk_def)
  qed
  then show ?thesis using assms by (auto simp: entriesOk_def)
qed

lemma entriesOk_add:
  assumes "entriesOk K hf eqf m es" "k \<in> K" "\<forall>e \<in> set es. \<not> keyEquiv hf eqf m (key e) k"
  shows "entriesOk K hf eqf m (\<lparr>key = k, ehash = mixHash (hf m k), evalue = v\<rparr> # es)"
  using assms equiv_sym by (auto simp: entriesOk_def)

lemma entriesOk_remove: "entriesOk K hf eqf m (A @ e # B) \<Longrightarrow> entriesOk K hf eqf m (A @ B)"
  by (auto simp: entriesOk_def)

lemma lookup_eqI:
  assumes "hashmapFor K hf eqf m hm" "k \<in> K"
    and "\<And>v. (\<exists>e \<in> set (entries hm). keyEquiv hf eqf m (key e) k \<and> evalue e = v) \<longleftrightarrow> x = Some v"
  shows "hmLookup m hm k = x"
  by (rule option_eqI) (simp add: lookup_iff [OF assms(1,2)] assms(3))

text \<open>Replacing one chain by another one keeps the invariant.\<close>

lemma for_replace_chain:
  assumes "hashmapFor K hf eqf m hm" "i < length (buckets hm)"
    and "\<forall>e \<in> set chain. unat (calculateIndex (bucketCount hm) (ehash e)) = i"
    and "entriesOk K hf eqf m (concat ((buckets hm)[i := chain]))"
    and "unat n = length (concat ((buckets hm)[i := chain]))"
  shows "hashmapFor K hf eqf m (hm\<lparr>buckets := (buckets hm)[i := chain], mapSize := n\<rparr>)"
  using assms wellPlaced_update [of "bucketCount hm" "buckets hm" chain i]
  by (auto simp: hashmapFor_def hashmapInv_def entries_def)

lemma expand_for:
  assumes "hashmapFor K hf eqf m hm"
  shows "hashmapFor K hf eqf m (expandIfNecessary a hm) \<and>
         mset (entries (expandIfNecessary a hm)) = mset (entries hm)"
proof -
  note e = expand_places [of hm a]
  have ms: "mset (entries (expandIfNecessary a hm)) = mset (entries hm)"
    using e(3) assms by (simp add: hashmapFor_def hashmapInv_def)
  have "entriesOk K hf eqf m (entries (expandIfNecessary a hm))"
    using forD(4) [OF assms] entriesOk_mset [OF ms, of K hf eqf m] by simp
  then show ?thesis
    using assms ms mset_eq_length [OF ms] e by (simp add: hashmapFor_def hashmapInv_def)
qed

lemma lookup_mset:
  assumes "hashmapFor K hf eqf m hm" "hashmapFor K hf eqf m hm'"
    and "mset (entries hm') = mset (entries hm)" "k \<in> K"
  shows "hmLookup m hm' k = hmLookup m hm k"
  by (rule option_eqI)
     (simp add: lookup_iff [OF assms(1,4)] lookup_iff [OF assms(2,4)] mset_eq_setD [OF assms(3)])

lemma chain_index:
  assumes "hashmapFor K hf eqf m hm" "e \<in> set (buckets hm ! i)" "i < length (buckets hm)"
  shows "unat (calculateIndex (bucketCount hm) (ehash e)) = i"
  using assms by (auto simp: hashmapFor_def hashmapInv_def wellPlaced_def)

lemma index_new:
  assumes "hashmapFor K hf eqf m hm"
  shows "unat (calculateIndex (bucketCount hm) (mixHash (hf m k))) = bucketIndex hm m k"
  using assms by (auto simp: bucketIndex_def hashKey_def hashmapFor_def)

text \<open>Where a hit lies, in its chain and among all the entries.\<close>

lemma hit_split:
  assumes "hashmapFor K hf eqf m hm" "k \<in> K" "hmLookup m hm k = Some old"
  obtains pre e post A B where
    "buckets hm ! bucketIndex hm m k = pre @ e # post"
    "matches hm m k e" "\<forall>e \<in> set pre. \<not> matches hm m k e" "evalue e = old"
    "entries hm = A @ e # B"
    "\<And>es. concat ((buckets hm)[bucketIndex hm m k := pre @ es @ post]) = A @ es @ B"
proof -
  let ?i = "bucketIndex hm m k"
  have i: "?i < length (buckets hm)" by (rule bucketIndex_less [OF forD(1) [OF assms(1)]])
  from assms(3) obtain e' where e': "e' \<in> set (buckets hm ! ?i)" "matches hm m k e'"
    using bucket_miss [OF assms(1,2)] by (metis option.distinct(1))
  then obtain pre e post where s: "buckets hm ! ?i = pre @ e # post" "matches hm m k e"
    "\<forall>e \<in> set pre. \<not> matches hm m k e"
    using split_list_first_prop [of "buckets hm ! ?i" "matches hm m k"] by blast
  have e_in: "e \<in> set (entries hm)"
    using bucket_subset [OF i] s(1) by auto
  have "evalue e = old"
    using lookup_iff [OF assms(1,2), of "evalue e"] matches_equiv [OF assms(1) e_in] s(2) e_in assms(3)
    by auto
  moreover have "entries hm = (concat (take ?i (buckets hm)) @ pre) @ e # (post @ concat (drop (Suc ?i) (buckets hm)))"
    using concat_nth_split [OF i] s(1) by (simp add: entries_def)
  moreover have "\<And>es. concat ((buckets hm)[?i := pre @ es @ post]) =
      (concat (take ?i (buckets hm)) @ pre) @ es @ (post @ concat (drop (Suc ?i) (buckets hm)))"
    using concat_update_split [OF i] by simp
  ultimately show thesis using that s by blast
qed

lemma equiv_same_class:
  assumes "x \<in> K" "y \<in> K" "z \<in> K" "keyEquiv hf eqf m x y"
  shows "keyEquiv hf eqf m x z \<longleftrightarrow> keyEquiv hf eqf m y z"
  using assms equiv_sym equiv_trans by blast

text \<open>What the three kinds of change to the entries do to the map they stand for.\<close>

lemma lookup_replace:
  assumes hm: "hashmapFor K hf eqf m hm" and hm': "hashmapFor K hf eqf m hm'"
    and ents: "entries hm = A @ e # B" "entries hm' = A @ e\<lparr>evalue := v\<rparr> # B"
    and ke: "keyEquiv hf eqf m (key e) k" and k: "k \<in> K" and k': "k' \<in> K"
  shows "hmLookup m hm' k' = (if keyEquiv hf eqf m k k' then Some v else hmLookup m hm k')"
proof (rule lookup_eqI [OF hm' k'])
  fix w
  have ok: "entriesOk K hf eqf m (A @ e # B)" using forD(4) [OF hm] ents by simp
  then have "key e \<in> K" by (simp add: entriesOk_def)
  then have cls: "keyEquiv hf eqf m (key e) k' \<longleftrightarrow> keyEquiv hf eqf m k k'"
    using equiv_same_class ke k k' by blast
  show "(\<exists>ea \<in> set (entries hm'). keyEquiv hf eqf m (key ea) k' \<and> evalue ea = w) \<longleftrightarrow>
        (if keyEquiv hf eqf m k k' then Some v else hmLookup m hm k') = Some w"
  proof (cases "keyEquiv hf eqf m k k'")
    case True
    have "ea = e" if "ea \<in> set A \<union> set B" "keyEquiv hf eqf m (key ea) k'" for ea
      using one_entry_per_key [OF ok k', of ea e] that True cls by auto
    moreover have "e \<notin> set A \<union> set B" using ok by (auto simp: entriesOk_def)
    ultimately show ?thesis using True cls ents by auto
  next
    case False
    then show ?thesis using cls ents lookup_iff [OF hm k', of w] by auto
  qed
qed

lemma lookup_add:
  assumes hm: "hashmapFor K hf eqf m hm" and hm': "hashmapFor K hf eqf m hm'"
    and ents: "mset (entries hm') = add_mset e (mset (entries hm))"
    and miss: "hmLookup m hm (key e) = None" and k: "key e \<in> K" and k': "k' \<in> K"
  shows "hmLookup m hm' k' = (if keyEquiv hf eqf m (key e) k' then Some (evalue e) else hmLookup m hm k')"
proof (rule lookup_eqI [OF hm' k'])
  fix w
  have set: "set (entries hm') = insert e (set (entries hm))"
    using ents by (metis set_mset_add_mset_insert set_mset_mset)
  have no: "\<not> keyEquiv hf eqf m (key ea) k'"
    if "ea \<in> set (entries hm)" "keyEquiv hf eqf m (key e) k'" for ea
  proof
    assume "keyEquiv hf eqf m (key ea) k'"
    moreover have "key ea \<in> K" using forD(4) [OF hm] that by (auto simp: entriesOk_def)
    ultimately have "keyEquiv hf eqf m (key ea) (key e)"
      using that k k' equiv_sym equiv_trans by blast
    with miss that lookup_None [OF hm k] show False by blast
  qed
  show "(\<exists>ea \<in> set (entries hm'). keyEquiv hf eqf m (key ea) k' \<and> evalue ea = w) \<longleftrightarrow>
        (if keyEquiv hf eqf m (key e) k' then Some (evalue e) else hmLookup m hm k') = Some w"
    using set no lookup_iff [OF hm k', of w] by auto
qed

lemma lookup_delete:
  assumes hm: "hashmapFor K hf eqf m hm" and hm': "hashmapFor K hf eqf m hm'"
    and ents: "entries hm = A @ e # B" "entries hm' = A @ B"
    and ke: "keyEquiv hf eqf m (key e) k" and k: "k \<in> K" and k': "k' \<in> K"
  shows "hmLookup m hm' k' = (if keyEquiv hf eqf m k k' then None else hmLookup m hm k')"
proof (rule lookup_eqI [OF hm' k'])
  fix w
  have ok: "entriesOk K hf eqf m (A @ e # B)" using forD(4) [OF hm] ents by simp
  then have "key e \<in> K" by (simp add: entriesOk_def)
  then have cls: "keyEquiv hf eqf m (key e) k' \<longleftrightarrow> keyEquiv hf eqf m k k'"
    using equiv_same_class ke k k' by blast
  have "\<not> keyEquiv hf eqf m (key ea) k'"
    if "ea \<in> set A \<union> set B" "keyEquiv hf eqf m k k'" for ea
    using one_entry_per_key [OF ok k', of ea e] that cls ok by (auto simp: entriesOk_def)
  then show "(\<exists>ea \<in> set (entries hm'). keyEquiv hf eqf m (key ea) k' \<and> evalue ea = w) \<longleftrightarrow>
        (if keyEquiv hf eqf m k k' then None else hmLookup m hm k') = Some w"
    using cls ents lookup_iff [OF hm k', of w] by auto
qed

subsection \<open>\<open>hashmapPut\<close>\<close>

lemma put_hit:
  assumes hm: "hashmapFor K hf eqf m hm" and k: "k \<in> K" and old: "hmLookup m hm k = Some old"
  obtains hm' where "hashmapPut a m hm k v = (old, None, hm')" "hashmapFor K hf eqf m hm'"
    "mapSize hm' = mapSize hm"
    "\<forall>k' \<in> K.
       hmLookup m hm' k' = (if keyEquiv hf eqf m k k' then Some v else hmLookup m hm k')"
proof -
  obtain pre e post A B where s: "buckets hm ! bucketIndex hm m k = pre @ e # post"
    "matches hm m k e" "\<forall>e \<in> set pre. \<not> matches hm m k e" "evalue e = old"
    "entries hm = A @ e # B"
    "\<And>es. concat ((buckets hm)[bucketIndex hm m k := pre @ es @ post]) = A @ es @ B"
    using hit_split [OF assms] by blast
  let ?i = "bucketIndex hm m k" and ?e = "e\<lparr>evalue := v\<rparr>"
  define hm' where "hm' = hm\<lparr>buckets := (buckets hm)[?i := pre @ ?e # post]\<rparr>"
  have i: "?i < length (buckets hm)" by (rule bucketIndex_less [OF forD(1) [OF hm]])
  have ents: "entries hm' = A @ ?e # B" using s(6) [of "[?e]"] by (simp add: hm'_def entries_def)
  have ok: "entriesOk K hf eqf m (A @ e # B)" using forD(4) [OF hm] s(5) by simp
  have "hm' = hm\<lparr>buckets := (buckets hm)[?i := pre @ ?e # post], mapSize := mapSize hm\<rparr>"
    by (simp add: hm'_def)
  moreover have "hashmapFor K hf eqf m \<dots>"
  proof (rule for_replace_chain [OF hm i])
    show "\<forall>ea \<in> set (pre @ ?e # post). unat (calculateIndex (bucketCount hm) (ehash ea)) = ?i"
      using chain_index [OF hm _ i] s(1) by auto
    show "entriesOk K hf eqf m (concat ((buckets hm)[?i := pre @ ?e # post]))"
      using entriesOk_replace [OF ok, of v] s(6) [of "[?e]"] by simp
    show "unat (mapSize hm) = length (concat ((buckets hm)[?i := pre @ ?e # post]))"
      using hm s(5) s(6) [of "[?e]"] by (simp add: hashmapFor_def hashmapInv_def)
  qed
  ultimately have hm'_for: "hashmapFor K hf eqf m hm'" by simp
  have ke: "keyEquiv hf eqf m (key e) k" using s(2,5) matches_equiv [OF hm, of e k] by auto
  have "hashmapPut a m hm k v = (old, None, hm')"
    using putChain_hit [OF s(3,2), of "createEntry a k (hashKey hm m k) v" v post] s(1,4)
    by (simp add: hashmapPut_def hm'_def Let_def)
  then show thesis
    using that hm'_for lookup_replace [OF hm hm'_for s(5) ents ke k] by (simp add: hm'_def)
qed

lemma put_no_memory:
  assumes hm: "hashmapFor K hf eqf m hm" and k: "k \<in> K" and miss: "hmLookup m hm k = None"
    and "\<not> malloc_ok a"
  shows "hashmapPut a m hm k v = (0, Some ENOMEM, hm)"
  using putChain_miss [OF bucket_miss [OF hm k, THEN iffD1, OF miss]] assms(4)
  by (simp add: hashmapPut_def createEntry_def Let_def)

lemma append_entry:
  assumes hm: "hashmapFor K hf eqf m hm" and k: "k \<in> K" and miss: "hmLookup m hm k = None"
    and room: "unat (mapSize hm) < 2 ^ 64 - 1"
    and e: "key e = k" "ehash e = mixHash (hf m k)" "e = \<lparr>key = k, ehash = mixHash (hf m k), evalue = v\<rparr>"
    and hm1: "hm1 = hm\<lparr>buckets := (buckets hm)[bucketIndex hm m k :=
                 buckets hm ! bucketIndex hm m k @ [e]], mapSize := mapSize hm + 1\<rparr>"
  shows "hashmapFor K hf eqf m hm1 \<and> mset (entries hm1) = add_mset e (mset (entries hm))"
proof
  let ?i = "bucketIndex hm m k"
  let ?chain = "buckets hm ! ?i @ [e]"
  have i: "?i < length (buckets hm)" by (rule bucketIndex_less [OF forD(1) [OF hm]])
  have ms: "mset (concat ((buckets hm)[?i := ?chain])) = mset (e # entries hm)"
    using concat_update_mset [OF i, of ?chain] by (simp add: entries_def)
  then show "mset (entries hm1) = add_mset e (mset (entries hm))"
    by (simp add: hm1 entries_def)
  show "hashmapFor K hf eqf m hm1"
    unfolding hm1
  proof (rule for_replace_chain [OF hm i])
    show "\<forall>ea \<in> set ?chain. unat (calculateIndex (bucketCount hm) (ehash ea)) = ?i"
      using chain_index [OF hm _ i] index_new [OF hm] e by auto
    show "entriesOk K hf eqf m (concat ((buckets hm)[?i := ?chain]))"
      using entriesOk_mset [OF ms, of K hf eqf m] entriesOk_add [OF forD(4) [OF hm] k] e
        lookup_None [OF hm k] miss by simp
    have "unat (mapSize hm + 1) = Suc (unat (mapSize hm))"
      using room by (simp add: unat_word_ariths)
    then show "unat (mapSize hm + 1) = length (concat ((buckets hm)[?i := ?chain]))"
      using mset_eq_length [OF ms] hm by (simp add: hashmapFor_def hashmapInv_def)
  qed
qed

lemma put_new:
  assumes hm: "hashmapFor K hf eqf m hm" and k: "k \<in> K" and miss: "hmLookup m hm k = None"
    and room: "unat (mapSize hm) < 2 ^ 64 - 1" and "malloc_ok a"
  obtains hm' where "hashmapPut a m hm k v = (0, None, hm')" "hashmapFor K hf eqf m hm'"
    "mapSize hm' = mapSize hm + 1"
    "mset (entries hm') = add_mset \<lparr>key = k, ehash = mixHash (hf m k), evalue = v\<rparr> (mset (entries hm))"
proof -
  define e where "e = \<lparr>key = k, ehash = mixHash (hf m k), evalue = v\<rparr>"
  define hm1 where "hm1 = hm\<lparr>buckets := (buckets hm)[bucketIndex hm m k :=
                 buckets hm ! bucketIndex hm m k @ [e]], mapSize := mapSize hm + 1\<rparr>"
  have one: "hashmapFor K hf eqf m hm1" "mset (entries hm1) = add_mset e (mset (entries hm))"
    using append_entry [OF hm k miss room _ _ e_def hm1_def] by (auto simp: e_def)
  have "hashmapPut a m hm k v = (0, None, expandIfNecessary a hm1)"
    using putChain_miss [OF bucket_miss [OF hm k, THEN iffD1, OF miss]] assms(5) forD(2) [OF hm]
    by (simp add: hashmapPut_def createEntry_def hm1_def e_def hashKey_def Let_def)
  moreover have "mapSize (expandIfNecessary a hm1) = mapSize hm + 1"
    by (simp add: expandIfNecessary_def Let_def hm1_def)
  ultimately show thesis
    using that expand_for [OF one(1), of a] one(2) by (simp add: e_def)
qed

lemma put_miss:
  assumes hm: "hashmapFor K hf eqf m hm" and k: "k \<in> K" and miss: "hmLookup m hm k = None"
    and room: "unat (mapSize hm) < 2 ^ 64 - 1" and "malloc_ok a"
  obtains hm' where "hashmapPut a m hm k v = (0, None, hm')" "hashmapFor K hf eqf m hm'"
    "mapSize hm' = mapSize hm + 1"
    "\<forall>k' \<in> K.
       hmLookup m hm' k' = (if keyEquiv hf eqf m k k' then Some v else hmLookup m hm k')"
proof -
  obtain hm' where new: "hashmapPut a m hm k v = (0, None, hm')" "hashmapFor K hf eqf m hm'"
    "mapSize hm' = mapSize hm + 1"
    "mset (entries hm') = add_mset \<lparr>key = k, ehash = mixHash (hf m k), evalue = v\<rparr> (mset (entries hm))"
    by (rule put_new [OF assms, of v])
  then show thesis
    using that [OF new(1-3)] lookup_add [OF hm new(2,4)] miss k by auto
qed

lemma put_laws:
  assumes hm: "hashmapFor K hf eqf m hm" and k: "k \<in> K" and room: "unat (mapSize hm) < 2 ^ 64 - 1"
    and hm'_def: "hm' = snd (snd (hashmapPut a m hm k v))"
  shows "hashmapFor K hf eqf m hm'" "unat (mapSize hm') \<le> Suc (unat (mapSize hm))"
    "k' \<in> K \<Longrightarrow> hmLookup m hm' k' =
       (if hmLookup m hm k = None \<and> \<not> malloc_ok a then hmLookup m hm k'
        else if keyEquiv hf eqf m k k' then Some v else hmLookup m hm k')"
proof -
  have "hashmapFor K hf eqf m hm' \<and> unat (mapSize hm') \<le> Suc (unat (mapSize hm)) \<and>
    (k' \<in> K \<longrightarrow> hmLookup m hm' k' =
       (if hmLookup m hm k = None \<and> \<not> malloc_ok a then hmLookup m hm k'
        else if keyEquiv hf eqf m k k' then Some v else hmLookup m hm k'))"
  proof (cases "hmLookup m hm k")
    case (Some old)
    obtain hm1 where p: "hashmapPut a m hm k v = (old, None, hm1)" "hashmapFor K hf eqf m hm1"
      "mapSize hm1 = mapSize hm"
      "\<forall>k' \<in> K.
         hmLookup m hm1 k' = (if keyEquiv hf eqf m k k' then Some v else hmLookup m hm k')"
      by (rule put_hit [OF hm k Some, of a v])
    then have "hm' = hm1" by (simp add: hm'_def)
    with p(2-4) Some show ?thesis by simp
  next
    case None
    show ?thesis
    proof (cases "malloc_ok a")
      case False
      then show ?thesis using put_no_memory [OF hm k None False] hm None by (simp add: hm'_def)
    next
      case True
      have "unat (mapSize hm + 1) = Suc (unat (mapSize hm))"
        using room by (simp add: unat_word_ariths)
      moreover obtain hm1 where p: "hashmapPut a m hm k v = (0, None, hm1)"
        "hashmapFor K hf eqf m hm1" "mapSize hm1 = mapSize hm + 1"
        "\<forall>k' \<in> K.
           hmLookup m hm1 k' = (if keyEquiv hf eqf m k k' then Some v else hmLookup m hm k')"
        by (rule put_miss [OF hm k None room True, of v])
      moreover have "hm' = hm1" using p(1) by (simp add: hm'_def)
      ultimately show ?thesis using True by simp
    qed
  qed
  then show "hashmapFor K hf eqf m hm'" "unat (mapSize hm') \<le> Suc (unat (mapSize hm))"
    "k' \<in> K \<Longrightarrow> hmLookup m hm' k' =
       (if hmLookup m hm k = None \<and> \<not> malloc_ok a then hmLookup m hm k'
        else if keyEquiv hf eqf m k k' then Some v else hmLookup m hm k')" by blast+
qed

subsection \<open>\<open>hashmapRemove\<close>, \<open>hashmapClear\<close> and \<open>hashmapMemoize\<close>\<close>

lemma remove_miss:
  assumes hm: "hashmapFor K hf eqf m hm" and k: "k \<in> K" and miss: "hmLookup m hm k = None"
  shows "hashmapRemove m hm k = (0, hm)"
  using removeChain_miss [OF bucket_miss [OF hm k, THEN iffD1, OF miss]]
  by (simp add: hashmapRemove_def Let_def)

lemma remove_hit:
  assumes hm: "hashmapFor K hf eqf m hm" and k: "k \<in> K" and old: "hmLookup m hm k = Some old"
  obtains hm' where "hashmapRemove m hm k = (old, hm')" "hashmapFor K hf eqf m hm'"
    "Suc (unat (mapSize hm')) = unat (mapSize hm)"
    "\<forall>k' \<in> K.
       hmLookup m hm' k' = (if keyEquiv hf eqf m k k' then None else hmLookup m hm k')"
proof -
  obtain pre e post A B where s: "buckets hm ! bucketIndex hm m k = pre @ e # post"
    "matches hm m k e" "\<forall>e \<in> set pre. \<not> matches hm m k e" "evalue e = old"
    "entries hm = A @ e # B"
    "\<And>es. concat ((buckets hm)[bucketIndex hm m k := pre @ es @ post]) = A @ es @ B"
    using hit_split [OF assms] by blast
  let ?i = "bucketIndex hm m k"
  define hm' where
    "hm' = hm\<lparr>buckets := (buckets hm)[?i := pre @ post], mapSize := mapSize hm - 1\<rparr>"
  have i: "?i < length (buckets hm)" by (rule bucketIndex_less [OF forD(1) [OF hm]])
  have new: "concat ((buckets hm)[?i := pre @ post]) = A @ B" using s(6) [of "[]"] by simp
  have size: "unat (mapSize hm) = length (A @ e # B)"
    using hm s(5) by (simp add: hashmapFor_def hashmapInv_def)
  then have size': "unat (mapSize hm - 1) = length (A @ B)"
    using unat_minus_one [of "mapSize hm"] by (cases "mapSize hm = 0") auto
  have hm'_for: "hashmapFor K hf eqf m hm'"
    unfolding hm'_def
  proof (rule for_replace_chain [OF hm i])
    show "\<forall>ea \<in> set (pre @ post). unat (calculateIndex (bucketCount hm) (ehash ea)) = ?i"
      using chain_index [OF hm _ i] s(1) by auto
    show "entriesOk K hf eqf m (concat ((buckets hm)[?i := pre @ post]))"
      using entriesOk_remove forD(4) [OF hm] s(5) new by simp
    show "unat (mapSize hm - 1) = length (concat ((buckets hm)[?i := pre @ post]))"
      using size' new by simp
  qed
  have ke: "keyEquiv hf eqf m (key e) k" using s(2,5) matches_equiv [OF hm, of e k] by auto
  have ents: "entries hm' = A @ B" using new by (simp add: hm'_def entries_def)
  have "hashmapRemove m hm k = (old, hm')"
    using removeChain_hit [OF s(3,2), of post] s(1,4)
    by (simp add: hashmapRemove_def hm'_def Let_def)
  moreover have "Suc (unat (mapSize hm')) = unat (mapSize hm)"
    using size size' by (simp add: hm'_def)
  ultimately show thesis
    using that hm'_for lookup_delete [OF hm hm'_for s(5) ents ke k] by blast
qed

lemma remove_laws:
  assumes hm: "hashmapFor K hf eqf m hm" and k: "k \<in> K"
    and hm'_def: "hm' = snd (hashmapRemove m hm k)"
  shows "hashmapFor K hf eqf m hm'" "unat (mapSize hm') \<le> unat (mapSize hm)"
    "k' \<in> K \<Longrightarrow> hmLookup m hm' k' = (if keyEquiv hf eqf m k k' then None else hmLookup m hm k')"
proof -
  have "hashmapFor K hf eqf m hm' \<and> unat (mapSize hm') \<le> unat (mapSize hm) \<and>
    (k' \<in> K \<longrightarrow> hmLookup m hm' k' = (if keyEquiv hf eqf m k k' then None else hmLookup m hm k'))"
  proof (cases "hmLookup m hm k")
    case (Some old)
    obtain hm1 where p: "hashmapRemove m hm k = (old, hm1)" "hashmapFor K hf eqf m hm1"
      "Suc (unat (mapSize hm1)) = unat (mapSize hm)"
      "\<forall>k' \<in> K.
         hmLookup m hm1 k' = (if keyEquiv hf eqf m k k' then None else hmLookup m hm k')"
      by (rule remove_hit [OF hm k Some])
    then have "hm' = hm1" by (simp add: hm'_def)
    with p(2-4) show ?thesis by simp
  next
    case None
    have "hmLookup m hm k' = None" if "k' \<in> K" "keyEquiv hf eqf m k k'"
    proof -
      have "\<not> keyEquiv hf eqf m (key e) k'" if e: "e \<in> set (entries hm)" for e
        using None lookup_None [OF hm k] e forD(4) [OF hm] \<open>k' \<in> K\<close> \<open>keyEquiv hf eqf m k k'\<close>
          equiv_same_class [OF _ \<open>k' \<in> K\<close> k] equiv_sym [OF k \<open>k' \<in> K\<close>]
        by (metis entriesOk_def equiv_trans k)
      then show ?thesis using lookup_None [OF hm that(1)] by blast
    qed
    then show ?thesis using remove_miss [OF hm k None] hm by (simp add: hm'_def)
  qed
  then show "hashmapFor K hf eqf m hm'" "unat (mapSize hm') \<le> unat (mapSize hm)"
    "k' \<in> K \<Longrightarrow> hmLookup m hm' k' = (if keyEquiv hf eqf m k k' then None else hmLookup m hm k')"
    by blast+
qed

lemma clear_laws:
  assumes "hashmapFor K hf eqf m hm"
  shows "hashmapFor K hf eqf m (snd (hashmapClear hm))"
    "hmLookup m (snd (hashmapClear hm)) k = None" "mapSize (snd (hashmapClear hm)) = 0"
  using assms wellPlaced_replicate
  by (auto simp: hashmapClear_def hashmapFor_def hashmapInv_def entriesOk_def entries_def hmLookup_def)

end

sublocale hash_keys \<subseteq> hmap: keyed_map
  "hashmapFor K hf eqf m" "hmLookup m" "\<lambda>a k v hm. snd (snd (hashmapPut a m hm k v))"
  "\<lambda>k hm. snd (hashmapRemove m hm k)" "\<lambda>hm. snd (hashmapClear hm)"
  "\<lambda>hm. unat (mapSize hm)" "2 ^ 64 - 1" malloc_ok "keyEquiv hf eqf m" K
proof (unfold_locales, goal_cases)
  case 1
  then show ?case by (rule put_laws(1) [OF _ _ _ refl])
next
  case 2
  then show ?case using put_laws(3) [OF _ _ _ refl] by blast
next
  case 3
  then show ?case by (rule put_laws(2) [OF _ _ _ refl])
next
  case 4
  then show ?case by (rule remove_laws(1) [OF _ _ refl])
next
  case 5
  then show ?case by (intro remove_laws(3) [OF _ _ refl])
next
  case 6
  then show ?case by (rule remove_laws(2) [OF _ _ refl])
qed (simp_all add: clear_laws)

section \<open>The shape of a map\<close>

text \<open>
  What holds of a map whatever the hash and equality functions answer: a power-of-two bucket array
  with every entry in the bucket its stored hash selects, and the size field.
\<close>

definition mapShape :: "('m, 'k, 'v) Hashmap \<Rightarrow> bool" where
  "mapShape hm \<longleftrightarrow>
     powerOfTwoCount (bucketCount hm) \<and> wellPlaced (bucketCount hm) (buckets hm) \<and>
     mapSize hm = of_nat (length (entries hm))"

lemma shape_index: "mapShape hm \<Longrightarrow> bucketIndex hm m k < length (buckets hm)"
  using calculateIndex_less powerOfTwoCount_pos by (fastforce simp: mapShape_def bucketIndex_def wellPlaced_def)

lemma shape_bucket: "mapShape hm \<Longrightarrow> i < length (buckets hm) \<Longrightarrow> e \<in> set (buckets hm ! i) \<Longrightarrow>
    unat (calculateIndex (bucketCount hm) (ehash e)) = i"
  by (simp add: mapShape_def wellPlaced_def)

lemma shape_replace_chain:
  assumes "mapShape hm" "i < length (buckets hm)"
    and "\<forall>e \<in> set chain. unat (calculateIndex (bucketCount hm) (ehash e)) = i"
    and "length chain = length (buckets hm ! i) + n"
  shows "mapShape (hm\<lparr>buckets := (buckets hm)[i := chain], mapSize := mapSize hm + of_nat n\<rparr>)"
proof -
  have "length (concat ((buckets hm)[i := chain])) = length (concat (buckets hm)) + n"
    using arg_cong [OF concat_update_mset [OF assms(2), of chain], of size] assms(4) by simp
  then show ?thesis
    using assms(1,3) wellPlaced_update [of "bucketCount hm" "buckets hm" chain i]
    by (simp add: mapShape_def entries_def)
qed

lemma shape_expand: "mapShape hm \<Longrightarrow> mapShape (expandIfNecessary a hm)"
  using expand_places [of hm a] mset_eq_length [OF expand_places(3) [of hm a]] unfolding mapShape_def by simp

lemma putChain_shape:
  assumes "putChain t new v es = (old, chain)" "\<forall>e \<in> set es. f (ehash e) = i"
    and "\<forall>e. new = Some e \<longrightarrow> f (ehash e) = i"
  shows "\<forall>e \<in> set chain. f (ehash e) = i"
    "length chain = length es + (if old = None \<and> new \<noteq> None then 1 else 0)"
proof -
  have "(\<forall>e \<in> set chain. f (ehash e) = i) \<and>
      length chain = length es + (if old = None \<and> new \<noteq> None then 1 else 0)"
    using assms
  proof (induction es arbitrary: old chain)
    case Nil
    then show ?case by (cases new) auto
  next
    case (Cons e es)
    show ?case
    proof (cases "t e")
      case True
      then show ?thesis using Cons.prems(1,2) by auto
    next
      case False
      obtain old' chain' where rest: "putChain t new v es = (old', chain')" by fastforce
      then show ?thesis using Cons.IH [OF rest] Cons.prems False by auto
    qed
  qed
  then show "\<forall>e \<in> set chain. f (ehash e) = i"
    "length chain = length es + (if old = None \<and> new \<noteq> None then 1 else 0)" by auto
qed

lemma put_shape:
  fixes hm :: "('m, 'k, 'v::zero) Hashmap"
  assumes "mapShape hm"
  shows "mapShape (snd (snd (hashmapPut a m hm k v)))"
    "hash_fn (snd (snd (hashmapPut a m hm k v))) = hash_fn hm"
    "equals_fn (snd (snd (hashmapPut a m hm k v))) = equals_fn hm"
proof -
  let ?i = "bucketIndex hm m k" and ?new = "createEntry a k (hashKey hm m k) v"
  obtain old chain where put: "putChain (matches hm m k) ?new v (buckets hm ! ?i) = (old, chain)" by fastforce
  have i: "?i < length (buckets hm)" by (rule shape_index [OF assms])
  have "\<forall>e. ?new = Some e \<longrightarrow> unat (calculateIndex (bucketCount hm) (ehash e)) = ?i"
    by (auto simp: createEntry_def bucketIndex_def)
  note chain = putChain_shape [OF put _ this] 
  have placed: "\<forall>e \<in> set chain. unat (calculateIndex (bucketCount hm) (ehash e)) = ?i"
    "length chain = length (buckets hm ! ?i) + (if old = None \<and> ?new \<noteq> None then 1 else 0)"
    using chain shape_bucket [OF assms i] by blast+
  define n where "n = (if old = None \<and> ?new \<noteq> None then 1 else 0 :: nat)"
  let ?hm = "hm\<lparr>buckets := (buckets hm)[?i := chain], mapSize := mapSize hm + of_nat n\<rparr>"
  have shape: "mapShape ?hm" by (rule shape_replace_chain [OF assms i]) (use placed in \<open>auto simp: n_def\<close>)
  have result: "snd (snd (hashmapPut a m hm k v)) = (if n = 1 then expandIfNecessary a ?hm else ?hm)"
    by (auto simp: hashmapPut_def Let_def put n_def split: option.split)
  show "mapShape (snd (snd (hashmapPut a m hm k v)))"
    unfolding result using shape shape_expand [OF shape] by (simp only: if_split) blast
  show "hash_fn (snd (snd (hashmapPut a m hm k v))) = hash_fn hm"
    "equals_fn (snd (snd (hashmapPut a m hm k v))) = equals_fn hm"
    unfolding result using expand_places(5,6) [of ?hm a] shape by (auto simp: mapShape_def)
qed

lemma clear_shape: "mapShape hm \<Longrightarrow> mapShape (snd (hashmapClear hm))"
  by (simp add: mapShape_def hashmapClear_def wellPlaced_replicate entries_def)

lemma set_value_shape:
  assumes "mapShape hm" "entryGet m hm k = Some p"
  shows "mapShape (setEntryValue hm p v)"
proof -
  obtain i pos where p: "p = (i, pos)" "i = bucketIndex hm m k" "findEntry (matches hm m k) (buckets hm ! i) = Some pos"
    using assms(2) by (auto simp: entryGet_def Let_def)
  have i: "i < length (buckets hm)" using p(2) shape_index [OF assms(1)] by simp
  have pos: "pos < length (buckets hm ! i)" using findEntry_Some [OF p(3)] by simp
  have "\<forall>e \<in> set ((buckets hm ! i)[pos := (entryAt hm p)\<lparr>evalue := v\<rparr>]).
      unat (calculateIndex (bucketCount hm) (ehash e)) = i"
    using shape_bucket [OF assms(1) i] pos by (auto simp: entryAt_def p(1) dest!: set_update_subset_insert [THEN subsetD])
  then show ?thesis
    using shape_replace_chain [OF assms(1) i, of _ 0] by (simp add: setEntryValue_def p(1))
qed

end
