(* ===== verification/HashmapLaws.thy ===== *)
theory HashmapLaws
  imports Hashmap
begin

text \<open>
  What the operations of \<open>hashmap.c\<close> promise: creation always returns and makes an empty map
  of the promised capacity, the secondary hashing loses nothing, iteration visits every entry
  once, a place returned by \<open>entryGet\<close> can be written through, and the key utilities for
  \<open>int\<close> keys satisfy the key contract, so that a map over them refines a mathematical map.
\<close>

section \<open>The secondary hash is a permutation\<close>

lemma xorshift_inverse:
  fixes h :: u32
  assumes "10 \<le> s"
  shows "(let y = h XOR drop_bit s h
          in y XOR drop_bit s y XOR drop_bit (s + s) y XOR drop_bit (s + s + s) y) = h"
  using assms unfolding Let_def
  by (intro bit_word_eqI) (auto simp: bit_simps add.assoc dest: bit_imp_le_length)

lemma xorshift_inj: "10 \<le> s \<Longrightarrow> inj (\<lambda>h :: u32. h XOR drop_bit s h)"
  by (rule injI) (metis xorshift_inverse)

lemma mult_odd_inj:
  fixes c d :: u32
  assumes "d * c = 1"
  shows "inj (\<lambda>h. c * h)"
proof (rule injI)
  fix x y
  assume "c * x = c * y"
  then have "(d * c) * x = (d * c) * y" by (simp only: mult.assoc)
  then show "x = y" by (simp only: assms mult_1)
qed

lemma mixHash_steps:
  "mixHash = (\<lambda>h. h XOR drop_bit 10 h) \<circ> (\<lambda>h. 17 * h) \<circ> (\<lambda>h. h XOR drop_bit 14 h)
     \<circ> (\<lambda>h. h - 1) \<circ> (\<lambda>h. (- 511) * h)"
  by (rule ext) (simp add: mixHash_def Let_def not_eq_complement push_bit_eq_mult algebra_simps)

lemma mixHash_inj: "inj mixHash"
proof -
  have a: "inj (\<lambda>h :: u32. (- 511) * h)"
    by (rule mult_odd_inj [of 134480385]) simp
  have b: "inj (\<lambda>h :: u32. h - 1)" by (simp add: inj_def)
  have c: "inj (\<lambda>h :: u32. h XOR drop_bit 14 h)" by (rule xorshift_inj) simp
  have d: "inj (\<lambda>h :: u32. 17 * h)"
    by (rule mult_odd_inj [of 4042322161]) simp
  have e: "inj (\<lambda>h :: u32. h XOR drop_bit 10 h)" by (rule xorshift_inj) simp
  show ?thesis
    unfolding mixHash_steps
    by (rule inj_compose [OF inj_compose [OF inj_compose [OF inj_compose [OF e d] c] b] a])
qed

section \<open>Creation\<close>

lemma bucketCountLoop_returns:
  fixes mn :: size_t
  assumes "unat mn < 2 ^ 63" "k \<le> 63" "k = 0 \<or> 2 ^ (k - 1) \<le> unat mn"
  shows "\<exists>j. bucketCountLoop mn (2 ^ k) = Some (2 ^ j) \<and> j \<le> 63 \<and> unat mn < 2 ^ j \<and>
             (j = 0 \<or> 2 ^ (j - 1) \<le> unat mn)"
  using assms(2,3)
proof (induction "63 - k" arbitrary: k)
  case 0
  then have "k = 63" by simp
  moreover have "\<not> (2 ^ 63 :: size_t) \<le> mn"
    using assms(1) by (simp add: word_le_nat_alt)
  ultimately show ?case using 0 assms(1) by (subst bucketCountLoop.simps) (auto intro!: exI [of _ 63])
next
  case (Suc n)
  show ?case
  proof (cases "(2 ^ k :: size_t) \<le> mn")
    case True
    have "2 ^ k \<le> unat mn"
      using True Suc.hyps(2) unat_two_power [of k, where 'a = 64] by (simp add: word_le_nat_alt)
    then have "\<exists>j. bucketCountLoop mn (2 ^ Suc k) = Some (2 ^ j) \<and> j \<le> 63 \<and> unat mn < 2 ^ j \<and>
             (j = 0 \<or> 2 ^ (j - 1) \<le> unat mn)"
      using Suc.hyps by (intro Suc.hyps(1)) auto
    moreover have "bucketCountLoop mn (2 ^ k) = bucketCountLoop mn (2 ^ Suc k)"
      using True by (subst bucketCountLoop.simps) (simp add: push_bit_eq_mult mult.commute)
    ultimately show ?thesis by simp
  next
    case False
    then have "unat mn < 2 ^ k"
      using Suc.hyps(2) unat_two_power [of k, where 'a = 64] by (simp add: word_le_nat_alt)
    then show ?thesis using False Suc.prems by (subst bucketCountLoop.simps) auto
  qed
qed

lemma wanted_count_bound: "unat (cap * 4 div 3 :: size_t) < 2 ^ 63"
proof -
  have "unat (cap * 4) < 2 ^ 64" by (rule order_less_le_trans [OF unsigned_less]) simp
  then have "unat (cap * 4) div 3 < 2 ^ 63" by simp
  then show ?thesis by (simp add: unat_div)
qed

definition freshMap :: "('m \<Rightarrow> 'k \<Rightarrow> u32) \<Rightarrow> ('m \<Rightarrow> 'k \<Rightarrow> 'k \<Rightarrow> bool) \<Rightarrow> nat \<Rightarrow> ('m, 'k, 'v) Hashmap" where
  "freshMap hf eqf j = \<lparr>buckets = replicate (2 ^ j) [], bucketCount = 2 ^ j,
     hash_fn = hf, equals_fn = eqf, mapSize = 0\<rparr>"

lemma create_result:
  fixes hf :: "'m \<Rightarrow> 'k \<Rightarrow> u32"
  obtains r :: "('m, 'k, 'v) Hashmap option" and j where
    "hashmapCreate a cap hf eqf = Some r" "j \<le> 63" "unat (cap * 4 div 3) < 2 ^ j"
    "j = 0 \<or> 2 ^ (j - 1) \<le> unat (cap * 4 div 3)"
    "if malloc_ok a \<and> calloc_ok a \<and> j \<le> 60 then r = Some (freshMap hf eqf j) else r = None"
proof -
  obtain j where j: "bucketCountLoop (cap * 4 div 3) 1 = Some (2 ^ j)" "j \<le> 63"
      "unat (cap * 4 div 3) < 2 ^ j" "j = 0 \<or> 2 ^ (j - 1) \<le> unat (cap * 4 div 3)"
    using bucketCountLoop_returns [OF wanted_count_bound, of 0 cap] by auto
  have u: "unat (2 ^ j :: size_t) = 2 ^ j" using j(2) by (simp add: unat_two_power)
  have "(2::nat) ^ j * 8 < 2 ^ 64 \<longleftrightarrow> (2::nat) ^ (j + 3) < 2 ^ 64" by (simp add: power_add)
  also have "\<dots> \<longleftrightarrow> j + 3 < 64" by (rule power_strict_increasing_iff) simp
  finally have "calloc_succeeds a (2 ^ j) 8 \<longleftrightarrow> calloc_ok a \<and> j \<le> 60"
    by (auto simp: calloc_succeeds_def u)
  then show thesis
    using j by (intro that [of "if malloc_ok a \<and> calloc_ok a \<and> j \<le> 60 then Some (freshMap hf eqf j) else None" j])
      (auto simp: hashmapCreate_def freshMap_def Let_def u)
qed

lemma freshMap_ok: "j \<le> 60 \<Longrightarrow> hashmapFor K hf eqf m (freshMap hf eqf j)"
  using wellPlaced_replicate [of "2 ^ j"]
  by (auto simp: freshMap_def hashmapFor_def hashmapInv_def powerOfTwoCount_def entriesOk_def
      entries_def unat_two_power)

lemma created_map:
  fixes hm :: "('m, 'k, 'v) Hashmap"
  assumes "hashmapCreate a cap hf eqf = Some (Some hm)"
  shows "hashmapFor K hf eqf m hm" "mapSize hm = 0" "entries hm = []" "hmLookup m hm k = None"
proof -
  obtain r :: "('m, 'k, 'v) Hashmap option" and j where "hashmapCreate a cap hf eqf = Some r"
    "if malloc_ok a \<and> calloc_ok a \<and> j \<le> 60 then r = Some (freshMap hf eqf j) else r = None"
    by (rule create_result [of a cap hf eqf])
  with assms have j: "j \<le> 60" "hm = freshMap hf eqf j" by (auto split: if_splits)
  show "hashmapFor K hf eqf m hm" unfolding j(2) by (rule freshMap_ok [OF j(1)])
  show "mapSize hm = 0" "entries hm = []" "hmLookup m hm k = None"
    using j by (simp_all add: freshMap_def entries_def hmLookup_def)
qed


section \<open>Iteration\<close>

lemma forEachChain_fold:
  assumes "\<And>k v c. fst (callback k v c)"
  shows "forEachChain callback es ctx = (True, fold (\<lambda>e c. snd (callback (key e) (evalue e) c)) es ctx)"
  by (induction es arbitrary: ctx) (simp_all add: case_prod_beta assms)

lemma forEachBuckets_fold:
  assumes "\<And>k v c. fst (callback k v c)"
  shows "forEachBuckets callback bs ctx = fold (\<lambda>e c. snd (callback (key e) (evalue e) c)) (concat bs) ctx"
  by (induction bs arbitrary: ctx) (simp_all add: forEachChain_fold [OF assms])

lemma clearChain_append: "clearChain freed es = freed @ es"
  by (induction es arbitrary: freed) auto

lemma clearBuckets_append: "clearBuckets freed bs = freed @ concat bs"
  by (induction bs arbitrary: freed) (auto simp: clearChain_append)

lemma collisionsChain_eq: "collisionsChain c es = c + of_nat (length es - 1)"
proof (induction es arbitrary: c)
  case (Cons e es)
  then show ?case by (cases es) auto
qed simp

lemma collisionsBuckets_eq: "collisionsBuckets c bs = c + of_nat (\<Sum>b\<leftarrow>bs. length b - 1)"
  by (induction bs arbitrary: c) (auto simp: collisionsChain_eq)

section \<open>Writing through a place returned by \<open>entryGet\<close>\<close>

context hash_keys
begin

lemma entryGet_None:
  assumes "hashmapFor K hf eqf m hm" "k \<in> K"
  shows "entryGet m hm k = None \<longleftrightarrow> hmLookup m hm k = None"
  using bucket_miss [OF assms] by (simp add: entryGet_def Let_def)

lemma entryGet_Some:
  assumes hm: "hashmapFor K hf eqf m hm" and k: "k \<in> K" and p: "entryGet m hm k = Some p"
  shows "entryAt hm p \<in> set (entries hm)" "keyEquiv hf eqf m (key (entryAt hm p)) k"
    "hmLookup m hm k = Some (evalue (entryAt hm p))"
proof -
  let ?b = "buckets hm ! bucketIndex hm m k"
  obtain pos where pos: "p = (bucketIndex hm m k, pos)" "findEntry (matches hm m k) ?b = Some pos"
    using p by (auto simp: entryGet_def Let_def)
  have at: "pos < length ?b" "find (matches hm m k) ?b = Some (entryAt hm p)"
    using findEntry_Some [OF pos(2)] pos(1) by (auto simp: entryAt_def)
  then show "hmLookup m hm k = Some (evalue (entryAt hm p))"
    using find_bucket [OF hm k] by (simp add: hmLookup_def)
  have "entryAt hm p \<in> set ?b" "matches hm m k (entryAt hm p)"
    using at by (auto simp: find_Some_iff)
  then show "entryAt hm p \<in> set (entries hm)"
    and "keyEquiv hf eqf m (key (entryAt hm p)) k"
    using bucket_subset [OF bucketIndex_less [OF forD(1) [OF hm]]] matches_equiv [OF hm] by blast+
qed

lemma setEntryValue_split:
  assumes hm: "hashmapFor K hf eqf m hm" and k: "k \<in> K" and p: "entryGet m hm k = Some p"
  obtains A B where "entries hm = A @ entryAt hm p # B"
    "entries (setEntryValue hm p v) = A @ (entryAt hm p)\<lparr>evalue := v\<rparr> # B"
proof -
  let ?i = "bucketIndex hm m k"
  let ?b = "buckets hm ! ?i"
  obtain pos where pos: "p = (?i, pos)" "findEntry (matches hm m k) ?b = Some pos"
    using p by (auto simp: entryGet_def Let_def)
  have at: "pos < length ?b" using findEntry_Some [OF pos(2)] by simp
  have i: "?i < length (buckets hm)" by (rule bucketIndex_less [OF forD(1) [OF hm]])
  have b: "?b = take pos ?b @ entryAt hm p # drop (Suc pos) ?b"
    using id_take_nth_drop [OF at] pos(1) by (simp add: entryAt_def)
  have b': "?b[pos := e] = take pos ?b @ e # drop (Suc pos) ?b" for e
    by (rule upd_conv_take_nth_drop [OF at])
  show thesis
  proof
    show "entries hm = (concat (take ?i (buckets hm)) @ take pos ?b) @ entryAt hm p
        # (drop (Suc pos) ?b @ concat (drop (Suc ?i) (buckets hm)))"
      using concat_nth_split [OF i] b by (simp add: entries_def)
    show "entries (setEntryValue hm p v) = (concat (take ?i (buckets hm)) @ take pos ?b)
        @ (entryAt hm p)\<lparr>evalue := v\<rparr> # (drop (Suc pos) ?b @ concat (drop (Suc ?i) (buckets hm)))"
      using concat_update_split [OF i] b' pos(1) by (simp add: entries_def setEntryValue_def)
  qed
qed

lemma setEntryValue_for:
  assumes hm: "hashmapFor K hf eqf m hm" and k: "k \<in> K" and p: "entryGet m hm k = Some p"
  shows "hashmapFor K hf eqf m (setEntryValue hm p v)"
proof -
  obtain A B where ents: "entries hm = A @ entryAt hm p # B"
    "entries (setEntryValue hm p v) = A @ (entryAt hm p)\<lparr>evalue := v\<rparr> # B"
    by (rule setEntryValue_split [OF assms])
  have ok: "entriesOk K hf eqf m (A @ entryAt hm p # B)" using forD(4) [OF hm] ents(1) by simp
  let ?i = "bucketIndex hm m k"
  obtain pos where pos: "p = (?i, pos)" "findEntry (matches hm m k) (buckets hm ! ?i) = Some pos"
    using p by (auto simp: entryGet_def Let_def)
  have i: "?i < length (buckets hm)" by (rule bucketIndex_less [OF forD(1) [OF hm]])
  let ?chain = "(buckets hm ! ?i)[pos := (entryAt hm p)\<lparr>evalue := v\<rparr>]"
  have eq: "setEntryValue hm p v = hm\<lparr>buckets := (buckets hm)[?i := ?chain], mapSize := mapSize hm\<rparr>"
    using pos(1) by (simp add: setEntryValue_def)
  have cat: "concat ((buckets hm)[?i := ?chain]) = A @ (entryAt hm p)\<lparr>evalue := v\<rparr> # B"
    using ents(2) eq by (simp add: entries_def)
  show ?thesis
    unfolding eq
  proof (rule for_replace_chain [OF hm i])
    have "set ?chain \<subseteq> insert ((entryAt hm p)\<lparr>evalue := v\<rparr>) (set (buckets hm ! ?i))"
      by (rule set_update_subset_insert)
    moreover have "entryAt hm p \<in> set (buckets hm ! ?i)"
      using findEntry_Some [OF pos(2)] pos(1) by (simp add: entryAt_def)
    ultimately show "\<forall>e \<in> set ?chain. unat (calculateIndex (bucketCount hm) (ehash e)) = ?i"
      using chain_index [OF hm _ i] by fastforce
    show "entriesOk K hf eqf m (concat ((buckets hm)[?i := ?chain]))"
      using entriesOk_replace [OF ok] cat by simp
    show "unat (mapSize hm) = length (concat ((buckets hm)[?i := ?chain]))"
      using hm ents(1) cat by (simp add: hashmapFor_def hashmapInv_def)
  qed
qed

lemma setEntryValue_lookup:
  assumes hm: "hashmapFor K hf eqf m hm" and k: "k \<in> K" and p: "entryGet m hm k = Some p"
    and k': "k' \<in> K"
  shows "hmLookup m (setEntryValue hm p v) k' =
           (if keyEquiv hf eqf m k k' then Some v else hmLookup m hm k')"
proof -
  obtain A B where ents: "entries hm = A @ entryAt hm p # B"
    "entries (setEntryValue hm p v) = A @ (entryAt hm p)\<lparr>evalue := v\<rparr> # B"
    by (rule setEntryValue_split [OF hm k p])
  show ?thesis
    by (rule lookup_replace [OF hm setEntryValue_for [OF hm k p] ents entryGet_Some(2) [OF hm k p] k k'])
qed

end

section \<open>Maps over \<open>int\<close> keys\<close>

lemma keyEquiv_int: "keyEquiv hashmapIntHash hashmapIntEquals m x y \<longleftrightarrow> m x = m y"
  by (auto simp: keyEquiv_def equalKeys_def hashmapIntHash_def hashmapIntEquals_def)

interpretation intKeys: hash_keys hashmapIntHash hashmapIntEquals m UNIV for m
  by unfold_locales (auto simp: keyEquiv_int)

section \<open>Properties\<close>

text \<open>One call of a history of calls on a map.\<close>

fun runOp :: "'m \<Rightarrow> (heap_res, 'k, 'v::zero) mapOp \<Rightarrow> ('m, 'k, 'v) Hashmap \<Rightarrow> ('m, 'k, 'v) Hashmap" where
  "runOp m (OpPut a k v) hm = snd (snd (hashmapPut a m hm k v))"
| "runOp m (OpRemove k) hm = snd (hashmapRemove m hm k)"
| "runOp m OpClear hm = snd (hashmapClear hm)"

context hash_keys
begin

lemma runOp_applyOp: "runOp m x hm = hmap.applyOp x hm"
  by (cases x) auto

lemma history:
  assumes "hashmapFor K hf eqf m hm" "\<forall>x \<in> set xs. opKeys x \<subseteq> K"
    and "unat (mapSize hm) + length xs < 2 ^ 64" "\<And>k. k \<in> K \<Longrightarrow> hmLookup m hm k = f k"
  shows "hashmapFor K hf eqf m (fold (runOp m) xs hm) \<and>
    (\<forall>k \<in> K. hmLookup m (fold (runOp m) xs hm) k = fold (specOp (keyEquiv hf eqf m) malloc_ok) xs f k)"
proof -
  have "fold (runOp m) xs hm = fold hmap.applyOp xs hm"
    by (intro fold_cong) (simp_all add: fun_eq_iff runOp_applyOp)
  with hmap.history_refines_spec [of hm xs f] assms show ?thesis by simp
qed

lemma memoize_get_or_put:
  assumes hm: "hashmapFor K hf eqf m hm" and k: "k \<in> K"
  shows "hashmapMemoize a m hm k init =
    (if hashmapContainsKey m hm k then (hashmapGet m hm k, None, hm)
     else case hashmapPut a m hm k (init k) of
            (_, err, hm') \<Rightarrow> (if err = None then init k else 0, err, hm'))"
proof (cases "hmLookup m hm k")
  case None
  note miss = bucket_miss [OF hm k, THEN iffD1, OF None]
  show ?thesis
    using None contains_lookup [OF hm k] putChain_miss [OF miss] memoizeChain_miss [OF miss]
    by (simp add: hashmapMemoize_def hashmapPut_def createEntry_def Let_def)
next
  case (Some old)
  obtain pre e post A B where s: "buckets hm ! bucketIndex hm m k = pre @ e # post"
    "matches hm m k e" "\<forall>e \<in> set pre. \<not> matches hm m k e" "evalue e = old"
    "entries hm = A @ e # B"
    "\<And>es. concat ((buckets hm)[bucketIndex hm m k := pre @ es @ post]) = A @ es @ B"
    using hit_split [OF hm k Some] by blast
  have "hm\<lparr>buckets := (buckets hm)[bucketIndex hm m k := buckets hm ! bucketIndex hm m k]\<rparr> = hm"
    by simp
  then show ?thesis
    using Some contains_lookup [OF hm k] get_lookup [OF hm k] s(1,4)
      memoizeChain_hit [OF s(3,2), where post = post]
    by (simp add: hashmapMemoize_def Let_def)
qed

end

text \<open>
  C1: a hash map refines a mathematical map.  Whatever history of \<open>hashmapPut\<close>,
  \<open>hashmapRemove\<close> and \<open>hashmapClear\<close> calls is run on a map made by \<open>hashmapCreate\<close>, with any
  allocation failures on the way, \<open>hashmapGet\<close> and \<open>hashmapContainsKey\<close> answer what the
  mathematical map answers, provided the client's hash and equality functions make
  \<open>equalKeys\<close> an equivalence on the keys in use.
\<close>

theorem hashmap_refines_map:
  fixes hm :: "('m, 'k, 'v::zero) Hashmap"
  assumes sym: "\<And>x y. \<lbrakk>x \<in> K; y \<in> K; keyEquiv hf eqf m x y\<rbrakk> \<Longrightarrow> keyEquiv hf eqf m y x"
    and trans: "\<And>x y z. \<lbrakk>x \<in> K; y \<in> K; z \<in> K; keyEquiv hf eqf m x y; keyEquiv hf eqf m y z\<rbrakk>
                  \<Longrightarrow> keyEquiv hf eqf m x z"
    and created: "hashmapCreate a cap hf eqf = Some (Some hm)"
    and keys: "\<forall>x \<in> set xs. opKeys x \<subseteq> K" "k \<in> K" and len: "length xs < 2 ^ 64"
  shows "let hm' = fold (runOp m) xs hm;
             spec = fold (specOp (keyEquiv hf eqf m) malloc_ok) xs (\<lambda>_. None)
         in hashmapGet m hm' k = (case spec k of None \<Rightarrow> 0 | Some v \<Rightarrow> v) \<and>
            hashmapContainsKey m hm' k = (spec k \<noteq> None)"
proof -
  have loc: "hash_keys hf eqf m K" by unfold_locales (fact sym, fact trans)
  have new: "hashmapFor K hf eqf m hm" "mapSize hm = 0" "hmLookup m hm k' = None" for k'
    using created_map [OF created] by auto
  have "hashmapFor K hf eqf m (fold (runOp m) xs hm) \<and>
    (\<forall>k \<in> K. hmLookup m (fold (runOp m) xs hm) k =
       fold (specOp (keyEquiv hf eqf m) malloc_ok) xs (\<lambda>_. None) k)"
    using hash_keys.history [OF loc new(1) keys(1)] new len by simp
  then have f: "hashmapFor K hf eqf m (fold (runOp m) xs hm)"
    and l: "hmLookup m (fold (runOp m) xs hm) k =
       fold (specOp (keyEquiv hf eqf m) malloc_ok) xs (\<lambda>_. None) k"
    using keys(2) by blast+
  show ?thesis
    using hash_keys.get_lookup [OF loc f keys(2)] hash_keys.contains_lookup [OF loc f keys(2)] l
    by (simp add: Let_def)
qed

text \<open>
  Witness: a map over \<open>int\<close> keys at the addresses 1, 2 and 3, the first two of which hold the
  same number, and a history with a replacement, an allocation failure and a removal.
\<close>

theorem hashmap_refines_map_witness:
  "let m = (\<lambda>p. if p = 3 then 7 else 5) :: int \<Rightarrow> u32;
       ok = \<lparr>malloc_ok = True, calloc_ok = True\<rparr>; bad = \<lparr>malloc_ok = False, calloc_ok = False\<rparr>;
       hm = the (the (hashmapCreate ok 1 hashmapIntHash hashmapIntEquals)) :: (int \<Rightarrow> u32, int, int) Hashmap;
       hm' = fold (runOp m) [OpPut ok 1 10, OpPut bad 3 11, OpPut bad 2 12, OpPut ok 3 13, OpRemove 3] hm
   in hashmapGet m hm' 1 = 12 \<and> \<not> hashmapContainsKey m hm' 3"
proof -
  let ?m = "(\<lambda>p. if p = 3 then 7 else 5) :: int \<Rightarrow> u32"
  let ?ok = "\<lparr>malloc_ok = True, calloc_ok = True\<rparr>" and ?bad = "\<lparr>malloc_ok = False, calloc_ok = False\<rparr>"
  let ?xs = "[OpPut ?ok 1 10, OpPut ?bad 3 11, OpPut ?bad 2 12, OpPut ?ok 3 13, OpRemove 3]
    :: (heap_res, int, int) mapOp list"
  obtain hm :: "(int \<Rightarrow> u32, int, int) Hashmap" where
    hm: "hashmapCreate ?ok 1 hashmapIntHash hashmapIntEquals = Some (Some hm)"
  proof -
    have "bucketCountLoop 1 1 = Some 2"
      by (subst bucketCountLoop.simps, subst bucketCountLoop.simps) (simp add: word_le_nat_alt)
    then show thesis by (intro that) (simp add: hashmapCreate_def calloc_succeeds_def)
  qed
  have "let hm' = fold (runOp ?m) ?xs hm;
            spec = fold (specOp (keyEquiv hashmapIntHash hashmapIntEquals ?m) malloc_ok) ?xs (\<lambda>_. None)
        in hashmapGet ?m hm' k = (case spec k of None \<Rightarrow> 0 | Some v \<Rightarrow> v) \<and>
           hashmapContainsKey ?m hm' k = (spec k \<noteq> None)" for k
    by (rule hashmap_refines_map [OF _ _ hm, where K = UNIV]) (auto simp: keyEquiv_int)
  from this [of 1] this [of 3] show ?thesis using hm by (simp add: keyEquiv_int Let_def)
qed


text \<open>
  The secondary hashing of \<open>hashKey\<close> is a permutation of the 32-bit integers: it maps
  distinct primary hashes to distinct hashes, so it adds no collision of its own.
\<close>

lemma hashKey_loses_nothing:
  "hashKey hm m x = hashKey hm m y \<longleftrightarrow> hash_fn hm m x = hash_fn hm m y"
  using mixHash_inj by (simp add: hashKey_def inj_eq)

text \<open>
  C32: every bucket access is in bounds: under the invariant the index that
  \<open>calculateIndex\<close> computes, sign extension and masking included, is below the length of the
  bucket array, for every key.
\<close>

theorem bucket_access_in_bounds:
  assumes "hashmapInv K m hm"
  shows "unat (calculateIndex (bucketCount hm) (hashKey hm m k)) < length (buckets hm)"
  using bucketIndex_less [OF assms] by (simp add: bucketIndex_def)

theorem bucket_access_in_bounds_witness:
  "\<exists>hm :: (int \<Rightarrow> u32, int, int) Hashmap. length (buckets hm) = 32 \<and>
     unat (calculateIndex (bucketCount hm) (hashKey hm (\<lambda>_. 0xFFFFFFFF) 1)) < length (buckets hm)"
proof -
  let ?hm = "freshMap hashmapIntHash hashmapIntEquals 5 :: (int \<Rightarrow> u32, int, int) Hashmap"
  have "hashmapFor UNIV hashmapIntHash hashmapIntEquals (\<lambda>_. 0xFFFFFFFF) ?hm"
    by (rule freshMap_ok) simp
  then have "hashmapInv UNIV (\<lambda>_. 0xFFFFFFFF) ?hm" by (simp add: hashmapFor_def)
  from bucket_access_in_bounds [OF this, of 1] show ?thesis
    by (intro exI [of _ ?hm] conjI) (simp_all add: freshMap_def)
qed

text \<open>
  C28: when memory runs out, \<open>hashmapPut\<close> of a new key returns NULL, sets \<open>errno\<close> to
  \<open>ENOMEM\<close> and leaves the map exactly as it was, whatever the client's hash and equality
  functions, if they make \<open>equalKeys\<close> an equivalence on the keys in use.
\<close>

theorem hashmapPut_out_of_memory:
  fixes hm :: "('m, 'k, 'v::zero) Hashmap"
  assumes "hash_keys hf eqf m K" "hashmapFor K hf eqf m hm" "k \<in> K"
    and "\<not> hashmapContainsKey m hm k" "\<not> malloc_ok a"
  shows "hashmapPut a m hm k v = (0, Some ENOMEM, hm)"
  using hash_keys.put_no_memory [OF assms(1-3) _ assms(5)] hash_keys.contains_lookup [OF assms(1-3)] assms(4)
  by simp

theorem hashmapPut_out_of_memory_witness:
  "hashmapPut \<lparr>malloc_ok = False, calloc_ok = True\<rparr> (\<lambda>_. 3)
     (freshMap hashmapIntHash hashmapIntEquals 5 :: (int \<Rightarrow> u32, int, int) Hashmap) 1 9 =
   (0, Some ENOMEM, freshMap hashmapIntHash hashmapIntEquals 5)"
proof (rule hashmapPut_out_of_memory [OF intKeys.hash_keys_axioms])
  show "hashmapFor UNIV hashmapIntHash hashmapIntEquals (\<lambda>_. 3)
      (freshMap hashmapIntHash hashmapIntEquals 5 :: (int \<Rightarrow> u32, int, int) Hashmap)"
    by (rule freshMap_ok) simp
  then show "\<not> hashmapContainsKey (\<lambda>_. 3)
      (freshMap hashmapIntHash hashmapIntEquals 5 :: (int \<Rightarrow> u32, int, int) Hashmap) 1"
    by (simp add: intKeys.contains_lookup hmLookup_def entries_def freshMap_def)
qed simp_all

text \<open>
  C29: \<open>hashmapMemoize\<close> is get-or-put: it returns the stored value and changes nothing when the
  key is there, and otherwise behaves as \<open>hashmapPut\<close> of the callback's value, returning that
  value, or NULL with \<open>ENOMEM\<close> when the entry cannot be allocated; for all hash and equality
  functions that make \<open>equalKeys\<close> an equivalence on the keys in use.
\<close>

theorem hashmapMemoize_get_or_put:
  fixes hm :: "('m, 'k, 'v::zero) Hashmap"
  assumes "hash_keys hf eqf m K" "hashmapFor K hf eqf m hm" "k \<in> K"
  shows "hashmapMemoize a m hm k init =
    (if hashmapContainsKey m hm k then (hashmapGet m hm k, None, hm)
     else case hashmapPut a m hm k (init k) of
            (_, err, hm') \<Rightarrow> (if err = None then init k else 0, err, hm'))"
  by (rule hash_keys.memoize_get_or_put [OF assms])

theorem hashmapMemoize_get_or_put_witness:
  "fst (hashmapMemoize \<lparr>malloc_ok = True, calloc_ok = True\<rparr> (\<lambda>_. 3)
     (freshMap hashmapIntHash hashmapIntEquals 0 :: (int \<Rightarrow> u32, int, int) Hashmap) 1 (\<lambda>k. k + 8)) = 9"
proof -
  let ?hm = "freshMap hashmapIntHash hashmapIntEquals 0 :: (int \<Rightarrow> u32, int, int) Hashmap"
  have ok: "hashmapFor UNIV hashmapIntHash hashmapIntEquals (\<lambda>_. 3) ?hm" by (rule freshMap_ok) simp
  have "\<not> hashmapContainsKey (\<lambda>_. 3) ?hm 1"
    using ok by (simp add: intKeys.contains_lookup hmLookup_def entries_def freshMap_def)
  then show ?thesis
    using hashmapMemoize_get_or_put [OF intKeys.hash_keys_axioms ok UNIV_I, of "\<lparr>malloc_ok = True, calloc_ok = True\<rparr>" 1 "\<lambda>k. k + 8"]
    by (simp add: hashmapPut_def createEntry_def freshMap_def bucketIndex_def calculateIndex_def Let_def)
qed

end
