(* ===== verification/CMemory.thy ===== *)
theory CMemory
  imports Prelude
begin

text \<open>
  The part of C's memory that the header code works on.  Memory is split by field, in the style
  of Burstall: \<open>chars\<close> is the byte at an address, \<open>refs\<close> the \<open>ref\<close> field of a
  \<open>struct curl_hdr\<close> at an address, \<open>blocks\<close> the live \<open>malloc\<close> blocks with their sizes.
  Reads outside a block read whatever byte is there, as the machine does; \<open>faults\<close> logs what an
  address sanitizer would report.
\<close>

type_synonym addr = int

datatype fault = InvalidFree addr | OverflowingWrite nat | NullAccess

record cmem =
  chars :: "addr \<Rightarrow> u8"
  refs :: "addr \<Rightarrow> addr"
  blocks :: "addr \<Rightarrow> nat option"
  faults :: "fault list"

section \<open>The C library functions the code calls\<close>

definition memBytes :: "(addr \<Rightarrow> u8) \<Rightarrow> addr \<Rightarrow> nat \<Rightarrow> u8 list" where
  "memBytes c p n = map (\<lambda>i. c (p + int i)) [0..<n]"

definition writeBytes :: "(addr \<Rightarrow> u8) \<Rightarrow> addr \<Rightarrow> u8 list \<Rightarrow> addr \<Rightarrow> u8" where
  "writeBytes c p s = (\<lambda>a. if p \<le> a \<and> a < p + int (length s) then s ! nat (a - p) else c a)"

partial_function (option) strlenLoop :: "(addr \<Rightarrow> u8) \<Rightarrow> addr \<Rightarrow> nat \<Rightarrow> nat option" where
  "strlenLoop c p n = (if c (p + int n) = 0 then Some n else strlenLoop c p (Suc n))"

declare strlenLoop.simps [code]

text \<open>\<open>strlen\<close> is only called on terminated strings; elsewhere its value is arbitrary.\<close>

definition strlen :: "(addr \<Rightarrow> u8) \<Rightarrow> addr \<Rightarrow> nat" where
  "strlen c p = (case strlenLoop c p 0 of Some n \<Rightarrow> n | None \<Rightarrow> 0)"

text \<open>What \<open>strncpy\<close> stores for the \<open>n\<close> bytes at its source: it stops at a NUL and pads.\<close>

definition strncpyBytes :: "u8 list \<Rightarrow> u8 list" where
  "strncpyBytes s =
     (let t = takeWhile (\<lambda>b. b \<noteq> 0) s in t @ replicate (length s - length t) 0)"

definition strncpy :: "(addr \<Rightarrow> u8) \<Rightarrow> addr \<Rightarrow> addr \<Rightarrow> nat \<Rightarrow> addr \<Rightarrow> u8" where
  "strncpy c dst src n = writeBytes c dst (strncpyBytes (memBytes c src n))"

definition cfree :: "addr \<Rightarrow> cmem \<Rightarrow> cmem" where
  "cfree p m =
     (if p = 0 then m
      else case blocks m p of
             None \<Rightarrow> m\<lparr>faults := faults m @ [InvalidFree p]\<rparr>
           | Some _ \<Rightarrow> m\<lparr>blocks := (blocks m)(p := None)\<rparr>)"

section \<open>Terminated strings\<close>

definition isCstr :: "(addr \<Rightarrow> u8) \<Rightarrow> addr \<Rightarrow> u8 list \<Rightarrow> bool" where
  "isCstr c p s \<longleftrightarrow>
     (\<forall>i < length s. c (p + int i) = s ! i) \<and> c (p + int (length s)) = 0 \<and> 0 \<notin> set s"

definition bytesOf :: "string \<Rightarrow> u8 list" where
  "bytesOf s = map of_char s"

lemma length_memBytes [simp]: "length (memBytes c p n) = n"
  by (simp add: memBytes_def)

lemma nth_memBytes [simp]: "i < n \<Longrightarrow> memBytes c p n ! i = c (p + int i)"
  by (simp add: memBytes_def)

lemma isCstr_nonzero: "isCstr c p s \<Longrightarrow> i < length s \<Longrightarrow> c (p + int i) \<noteq> 0"
  by (metis isCstr_def nth_mem)

lemma isCstr_at: "isCstr c p s \<Longrightarrow> i < length s \<Longrightarrow> c (p + int i) = s ! i"
  by (simp add: isCstr_def)

lemma isCstr_end: "isCstr c p s \<Longrightarrow> c (p + int (length s)) = 0"
  by (simp add: isCstr_def)

lemma strlenLoop_cstr:
  assumes "isCstr c p s" "n \<le> length s"
  shows "strlenLoop c p n = Some (length s)"
  using assms(2)
proof (induction "length s - n" arbitrary: n)
  case 0
  then show ?case using isCstr_end [OF assms(1)] by (subst strlenLoop.simps) simp
next
  case (Suc d)
  then have "n < length s" by simp
  then show ?case
    using Suc isCstr_nonzero [OF assms(1), of n] by (subst strlenLoop.simps) simp
qed

lemma strlen_cstr: "isCstr c p s \<Longrightarrow> strlen c p = length s"
  by (simp add: strlen_def strlenLoop_cstr)

lemma memBytes_cstr: "isCstr c p s \<Longrightarrow> memBytes c p (length s) = s"
  by (rule nth_equalityI) (auto simp: isCstr_at)

lemma isCstr_unique: "isCstr c p s \<Longrightarrow> isCstr c p t \<Longrightarrow> s = t"
  by (metis memBytes_cstr strlen_cstr)

section \<open>Reads after writes\<close>

lemma writeBytes_inside [mem_simps]:
  "i < length s \<Longrightarrow> writeBytes c p s (p + int i) = s ! i"
  by (simp add: writeBytes_def)

lemma writeBytes_outside [mem_simps]:
  "a < p \<or> p + int (length s) \<le> a \<Longrightarrow> writeBytes c p s a = c a"
  by (auto simp: writeBytes_def)

lemma isCstr_cong:
  assumes "\<And>i. i \<le> length s \<Longrightarrow> c' (p + int i) = c (p + int i)"
  shows "isCstr c' p s \<longleftrightarrow> isCstr c p s"
  using assms by (auto simp: isCstr_def)

lemma memBytes_cong:
  assumes "\<And>i. i < n \<Longrightarrow> c' (p + int i) = c (p + int i)"
  shows "memBytes c' p n = memBytes c p n"
  using assms by (auto simp: memBytes_def)

lemma length_strncpyBytes [simp]: "length (strncpyBytes s) = length s"
  by (simp add: strncpyBytes_def Let_def length_takeWhile_le)

lemma strncpyBytes_id: "0 \<notin> set s \<Longrightarrow> strncpyBytes s = s"
proof -
  assume "0 \<notin> set s"
  then have t: "takeWhile (\<lambda>b. b \<noteq> 0) s = s" by (auto simp: takeWhile_eq_all_conv)
  show ?thesis unfolding strncpyBytes_def Let_def t by simp
qed

lemma isCstr_write:
  assumes "0 \<notin> set s"
  shows "isCstr ((writeBytes c p s)(p + int (length s) := 0)) p s"
  using assms by (auto simp: isCstr_def mem_simps)

lemma memBytes_0 [simp]: "memBytes c p 0 = []"
  by (simp add: memBytes_def)

lemma memBytes_Suc: "memBytes c p (Suc n) = memBytes c p n @ [c (p + int n)]"
  by (simp add: memBytes_def)

lemma memBytes_Cons: "memBytes c p (Suc n) = c p # memBytes c (p + 1) n"
  by (rule nth_equalityI) (auto simp: nth_Cons' algebra_simps of_nat_diff)

lemma isCstr_frame:
  assumes "isCstr c p s" "\<And>a. p \<le> a \<Longrightarrow> a \<le> p + int (length s) \<Longrightarrow> c' a = c a"
  shows "isCstr c' p s"
  using assms isCstr_cong [of s c' p c] by auto

lemma strncpy_bytes:
  assumes "0 \<notin> set (memBytes c src n)"
  shows "strncpy c dst src n = writeBytes c dst (memBytes c src n)"
  using assms by (simp add: strncpy_def strncpyBytes_id)

end
