(* ===== verification/HeaderKeys.thy ===== *)
theory HeaderKeys
  imports HashmapLaws CMemory
begin

text \<open>
  The two function pointers that \<open>native-lib.c\<close> gives its header map: \<open>hashCalc\<close> hashes a
  header name case-insensitively, \<open>hashKeyCompare\<close> is meant to compare two names.  In the
  comparison the macro \<open>TOLOWER(*p2++)\<close> evaluates its argument two or three times, and the
  result of the comparison is inverted; both are modelled as the C semantics has them.  The
  locale \<open>header_names\<close> collects what a set of header names needs for the map to work all the
  same, and it is interpreted on the common response headers.
\<close>

section \<open>Hashing and comparing header names\<close>

definition TOLOWER :: "u8 \<Rightarrow> u8" where
  "TOLOWER data = (if data > 0x40 \<and> data < 0x5b then data OR 0x60 else data)"

fun hashCalcLoop :: "u32 \<Rightarrow> u8 list \<Rightarrow> u32" where
  "hashCalcLoop h [] = h"
| "hashCalcLoop h (ch # data) = hashCalcLoop (h * 31 + ucast (TOLOWER ch)) data"

definition hashCalc :: "(addr \<Rightarrow> u8) \<Rightarrow> addr \<Rightarrow> u32" where
  "hashCalc c k =
     (let len = strlen c k in hashCalcLoop (of_nat len) (memBytes c k len))"

text \<open>
  The expansion of \<open>TOLOWER(*p2++)\<close>:
  \<open>((*p2++ > 0x40 && *p2++ < 0x5b) ? *p2++|0x60 : *p2++)\<close>.  It yields the value and the
  pointer after the increments.
\<close>

definition tolowerInc :: "(addr \<Rightarrow> u8) \<Rightarrow> addr \<Rightarrow> u8 \<times> addr" where
  "tolowerInc c p2 =
     (if c p2 > 0x40
      then (if c (p2 + 1) < 0x5b then (c (p2 + 2) OR 0x60, p2 + 3) else (c (p2 + 2), p2 + 3))
      else (c (p2 + 1), p2 + 2))"

text \<open>The loop; it returns the final \<open>result\<close> and the final \<open>p2\<close>.\<close>

partial_function (option) hashKeyCompareLoop ::
  "(addr \<Rightarrow> u8) \<Rightarrow> addr \<Rightarrow> addr \<Rightarrow> (bool \<times> addr) option" where
  "hashKeyCompareLoop c p1 p2 =
     (let (y, p2') = tolowerInc c p2;
          result = (TOLOWER (c p1) = y)
      in if result
         then (if c p1 = 0 then Some (result, p2') else hashKeyCompareLoop c (p1 + 1) p2')
         else Some (result, p2'))"

declare hashKeyCompareLoop.simps [code]

definition hashKeyCompare :: "(addr \<Rightarrow> u8) \<Rightarrow> addr \<Rightarrow> addr \<Rightarrow> bool option" where
  "hashKeyCompare c a b =
     (if a = b then Some True
      else map_option (\<lambda>(result, p2). \<not> result) (hashKeyCompareLoop c a b))"

text \<open>The two as the map's function pointers, reading the C memory.\<close>

definition hdrHash :: "cmem \<Rightarrow> addr \<Rightarrow> u32" where
  "hdrHash m k = hashCalc (chars m) k"

definition hdrEquals :: "cmem \<Rightarrow> addr \<Rightarrow> addr \<Rightarrow> bool" where
  "hdrEquals m a b = (hashKeyCompare (chars m) a b = Some True)"

section \<open>Lemmas\<close>

definition lower :: "u8 list \<Rightarrow> u8 list" where
  "lower s = map TOLOWER s"

definition nameHash :: "u8 list \<Rightarrow> u32" where
  "nameHash s = hashCalcLoop (of_nat (length s)) s"

lemma or_0x60_ge: "(0x60 :: u8) \<le> c OR 0x60"
  by (rule le_word_or1)

lemma not_upper_or_0x60: "\<not> c OR 0x60 < (0x5b :: u8)" "c OR 0x60 > (0x40 :: u8)" "c OR 0x60 \<noteq> (0 :: u8)"
  using or_0x60_ge [of c] by (auto simp: word_less_nat_alt word_le_nat_alt)

lemma TOLOWER_idem [simp]: "TOLOWER (TOLOWER c) = TOLOWER c"
  by (simp add: TOLOWER_def not_upper_or_0x60)

lemma TOLOWER_eq_0 [simp]: "TOLOWER c = 0 \<longleftrightarrow> c = 0"
  by (auto simp: TOLOWER_def not_upper_or_0x60)

lemma TOLOWER_or [simp]: "TOLOWER c OR 0x60 = c OR 0x60"
  by (simp add: TOLOWER_def or.assoc)

lemma TOLOWER_gt [simp]: "0x40 < TOLOWER c \<longleftrightarrow> 0x40 < c"
  by (simp add: TOLOWER_def not_upper_or_0x60)

lemma length_lower [simp]: "length (lower s) = length s"
  by (simp add: lower_def)

lemma nth_lower [simp]: "i < length s \<Longrightarrow> lower s ! i = TOLOWER (s ! i)"
  by (simp add: lower_def)

lemma hashCalcLoop_lower: "hashCalcLoop h (lower s) = hashCalcLoop h s"
  by (induction s arbitrary: h) (auto simp: lower_def)

lemma nameHash_lower: "nameHash (lower s) = nameHash s"
  by (simp add: nameHash_def hashCalcLoop_lower)

lemma hashCalc_cstr: "isCstr c p s \<Longrightarrow> hashCalc c p = nameHash s"
  by (simp add: hashCalc_def nameHash_def strlen_cstr memBytes_cstr Let_def)

lemma hashKeyCompareLoop_step:
  "hashKeyCompareLoop c p1 p2 =
     (if TOLOWER (c p1) = fst (tolowerInc c p2)
      then (if c p1 = 0 then Some (True, snd (tolowerInc c p2))
            else hashKeyCompareLoop c (p1 + 1) (snd (tolowerInc c p2)))
      else Some (False, snd (tolowerInc c p2)))"
  by (subst hashKeyCompareLoop.simps) (simp add: case_prod_beta Let_def)

lemma hashKeyCompareLoop_returns:
  assumes "isCstr c p s" "i \<le> length s"
  shows "\<exists>r q. hashKeyCompareLoop c (p + int i) p2 = Some (r, q)"
  using assms(2)
proof (induction "length s - i" arbitrary: i p2)
  case 0
  then show ?case using isCstr_end [OF assms(1)] by (subst hashKeyCompareLoop_step) auto
next
  case (Suc d)
  from Suc.hyps(1) [of "Suc i"] Suc.hyps(2)
  have "\<exists>r q. hashKeyCompareLoop c (p + int i + 1) p2' = Some (r, q)" for p2'
    by (simp add: algebra_simps)
  then show ?case by (subst hashKeyCompareLoop_step) auto
qed

section \<open>Names on which the comparison works\<close>

text \<open>
  \<open>surelyDiffers s i j\<close>: while the loop compares a name with another copy of itself, whatever
  the case of the letters in the two copies, \<open>i\<close> characters into the first and \<open>j\<close> into the
  second, it comes to a mismatch before it reads past the terminator.  \<open>s\<close> is the name in lower
  case.  A mismatch is what makes \<open>hashKeyCompare\<close> answer true.
\<close>

definition nameAt :: "u8 list \<Rightarrow> nat \<Rightarrow> u8" where
  "nameAt s i = (if i < length s then s ! i else 0)"

function surelyDiffers :: "u8 list \<Rightarrow> nat \<Rightarrow> nat \<Rightarrow> bool" where
  "surelyDiffers s i j =
     (if j \<ge> length s then False
      else if nameAt s j > 0x40
      then j + 2 \<le> length s \<and>
        (nameAt s i \<noteq> nameAt s (j + 2) \<and> nameAt s i \<noteq> nameAt s (j + 2) OR 0x60
         \<or> surelyDiffers s (i + 1) (j + 3))
      else j + 1 \<le> length s \<and>
        (nameAt s i \<noteq> nameAt s (j + 1) \<or> surelyDiffers s (i + 1) (j + 2)))"
  by pat_completeness auto
termination
  by (relation "measure (\<lambda>(s, i, j). length s - j)") auto

declare surelyDiffers.simps [simp del]

lemma isCstr_nameAt:
  assumes "isCstr c p s" "i \<le> length s"
  shows "TOLOWER (c (p + int i)) = nameAt (lower s) i"
  using assms by (auto simp: nameAt_def isCstr_def le_less)

lemma surelyDiffers_compare:
  assumes a: "isCstr c a s" and b: "isCstr c b t" and eq: "lower s = lower t"
    and "surelyDiffers (lower s) i j" "i \<le> j"
  shows "\<exists>q. hashKeyCompareLoop c (a + int i) (b + int j) = Some (False, q)"
  using assms(4,5)
proof (induction "lower s" i j rule: surelyDiffers.induct)
  case (1 i j)
  have len: "length t = length s" using eq by (metis length_lower)
  have j: "j < length s" using 1(3) by (subst (asm) surelyDiffers.simps) (auto split: if_splits)
  have at_a: "TOLOWER (c (a + int i)) = nameAt (lower s) i"
    using isCstr_nameAt [OF a] 1(4) j by simp
  have at_b: "TOLOWER (c (b + int n)) = nameAt (lower s) n" if "n \<le> length s" for n
    using isCstr_nameAt [OF b] that len eq by simp
  have nz: "c (a + int i) \<noteq> 0" using isCstr_nonzero [OF a] 1(4) j by simp
  have gt: "c (b + int j) > 0x40 \<longleftrightarrow> nameAt (lower s) j > 0x40"
    using at_b [of j] j by (metis TOLOWER_gt less_imp_le)
  show ?case
  proof (cases "nameAt (lower s) j > 0x40")
    case True
    then have j2: "j + 2 \<le> length s" using 1(3) j by (subst (asm) surelyDiffers.simps) auto
    have next_p: "snd (tolowerInc c (b + int j)) = b + int (j + 3)"
      using True gt by (simp add: tolowerInc_def)
    show ?thesis
    proof (cases "TOLOWER (c (a + int i)) = fst (tolowerInc c (b + int j))")
      case False
      then show ?thesis by (subst hashKeyCompareLoop_step) simp
    next
      case match: True
      then have "nameAt (lower s) i = nameAt (lower s) (j + 2) \<or>
                 nameAt (lower s) i = nameAt (lower s) (j + 2) OR 0x60"
        using at_a at_b [OF j2] True gt TOLOWER_idem TOLOWER_or
        by (auto simp: tolowerInc_def algebra_simps split: if_splits) (metis TOLOWER_idem TOLOWER_or)+
      then have "surelyDiffers (lower s) (i + 1) (j + 3)"
        using 1(3) True j by (subst (asm) surelyDiffers.simps) auto
      then have "\<exists>q. hashKeyCompareLoop c (a + int (i + 1)) (b + int (j + 3)) = Some (False, q)"
        using 1(1) True j 1(4) by auto
      then show ?thesis
        using match nz next_p by (subst hashKeyCompareLoop_step) (simp add: algebra_simps)
    qed
  next
    case False
    have next_p: "snd (tolowerInc c (b + int j)) = b + int (j + 2)"
      using False gt by (simp add: tolowerInc_def)
    show ?thesis
    proof (cases "TOLOWER (c (a + int i)) = fst (tolowerInc c (b + int j))")
      case False
      then show ?thesis by (subst hashKeyCompareLoop_step) simp
    next
      case match: True
      have "c (b + int (j + 1)) = TOLOWER (c (a + int i))"
        using match False gt by (simp add: tolowerInc_def algebra_simps)
      then have "nameAt (lower s) i = nameAt (lower s) (j + 1)"
        using at_a at_b [of "j + 1"] j by (metis Suc_eq_plus1 Suc_leI TOLOWER_idem)
      then have "surelyDiffers (lower s) (i + 1) (j + 2)"
        using 1(3) False j by (subst (asm) surelyDiffers.simps) auto
      then have "\<exists>q. hashKeyCompareLoop c (a + int (i + 1)) (b + int (j + 2)) = Some (False, q)"
        using 1(2) False j 1(4) by auto
      then show ?thesis
        using match nz next_p by (subst hashKeyCompareLoop_step) (simp add: algebra_simps)
    qed
  qed
qed

section \<open>The key contract for header names\<close>

text \<open>The addresses at which a name of the set \<open>N\<close> (of lower-case names) stands, in any case.\<close>

definition keysIn :: "u8 list set \<Rightarrow> cmem \<Rightarrow> addr set" where
  "keysIn N m = {p. \<exists>s. isCstr (chars m) p s \<and> lower s \<in> N}"

definition nameIn :: "cmem \<Rightarrow> addr \<Rightarrow> u8 list" where
  "nameIn m p = lower (memBytes (chars m) p (strlen (chars m) p))"

lemma nameIn_cstr: "isCstr (chars m) p s \<Longrightarrow> nameIn m p = lower s"
  by (simp add: nameIn_def strlen_cstr memBytes_cstr)

text \<open>
  What a set of header names must satisfy for the header map to work: no two of them have the
  same hash, and comparing one with another copy of itself comes to the mismatch that
  \<open>hashKeyCompare\<close> takes for equality.
\<close>

locale header_names =
  fixes N :: "u8 list set"
  assumes hash_inj: "inj_on nameHash N"
    and compares: "s \<in> N \<Longrightarrow> surelyDiffers s 0 0"
begin

lemma keyEquiv_names:
  assumes "p \<in> keysIn N m" "q \<in> keysIn N m"
  shows "keyEquiv hdrHash hdrEquals m p q \<longleftrightarrow> nameIn m p = nameIn m q"
proof -
  obtain s where s: "isCstr (chars m) p s" "lower s \<in> N" using assms(1) by (auto simp: keysIn_def)
  obtain t where t: "isCstr (chars m) q t" "lower t \<in> N" using assms(2) by (auto simp: keysIn_def)
  have hash: "hdrHash m p = hdrHash m q \<longleftrightarrow> lower s = lower t"
    using hash_inj s t by (simp add: hdrHash_def hashCalc_cstr) (metis inj_onD nameHash_lower)
  have "hdrEquals m p q" if "lower s = lower t"
    using surelyDiffers_compare [OF s(1) t(1) that compares [OF s(2)]]
    by (auto simp: hdrEquals_def hashKeyCompare_def)
  then show ?thesis
    using hash mixHash_inj
    by (auto simp: keyEquiv_def equalKeys_def inj_eq nameIn_cstr [OF s(1)] nameIn_cstr [OF t(1)])
qed

end

sublocale header_names \<subseteq> hdr: hash_keys hdrHash hdrEquals m "keysIn N m" for m
  by unfold_locales (auto simp: keyEquiv_names)

section \<open>The common response headers\<close>

definition commonHeaders :: "u8 list list" where
  "commonHeaders = map bytesOf
    [''location'', ''content-type'', ''content-length'', ''content-encoding'', ''content-range'',
     ''content-language'', ''content-disposition'', ''content-location'', ''transfer-encoding'',
     ''connection'', ''keep-alive'', ''date'', ''server'', ''set-cookie'', ''cache-control'',
     ''expires'', ''etag'', ''last-modified'', ''pragma'', ''vary'', ''age'', ''via'',
     ''accept-ranges'', ''allow'', ''retry-after'', ''upgrade'', ''trailer'', ''warning'',
     ''link'', ''refresh'', ''www-authenticate'', ''proxy-authenticate'', ''alt-svc'',
     ''strict-transport-security'', ''x-xss-protection'', ''x-frame-options'']"

lemma commonHeaders_hashes: "distinct (map nameHash commonHeaders)"
  by code_simp

lemma commonHeaders_compare: "list_all (\<lambda>s. surelyDiffers s 0 0) commonHeaders"
  by code_simp

interpretation common: header_names "set commonHeaders"
  by unfold_locales
     (use commonHeaders_hashes commonHeaders_compare in \<open>auto simp: distinct_map list_all_iff\<close>)

lemma isCstr_byte: "isCstr c p s \<Longrightarrow> i \<le> length s \<Longrightarrow> c (p + int i) = nameAt s i"
  by (auto simp: nameAt_def isCstr_def le_less)

section \<open>Properties\<close>

text \<open>C27: On the common response headers the two function pointers tell names apart exactly as
  they should: two copies count as the same key when they are the same name up to the case of the
  letters, and only then.\<close>

theorem common_names_told_apart:
  assumes "p \<in> keysIn (set commonHeaders) m" "q \<in> keysIn (set commonHeaders) m"
  shows "keyEquiv hdrHash hdrEquals m p q \<longleftrightarrow> nameIn m p = nameIn m q"
  by (rule common.keyEquiv_names [OF assms])

definition demoNames :: cmem where
  "demoNames = \<lparr>chars = writeBytes (writeBytes (writeBytes (\<lambda>a. 0) 10 (bytesOf ''Date'')) 30 (bytesOf ''DATE''))
     50 (bytesOf ''Server''), refs = (\<lambda>a. 0), blocks = (\<lambda>a. None), faults = []\<rparr>"

lemma demoNames_strings:
  "isCstr (chars demoNames) 10 (bytesOf ''Date'')" "isCstr (chars demoNames) 30 (bytesOf ''DATE'')"
  "isCstr (chars demoNames) 50 (bytesOf ''Server'')"
  by code_simp+

theorem common_names_told_apart_witness:
  "keyEquiv hdrHash hdrEquals demoNames 10 30 \<and> \<not> keyEquiv hdrHash hdrEquals demoNames 10 50"
proof -
  have low: "lower (bytesOf ''Date'') = bytesOf ''date''" "lower (bytesOf ''DATE'') = bytesOf ''date''"
    "lower (bytesOf ''Server'') = bytesOf ''server''" "bytesOf ''date'' \<in> set commonHeaders"
    "bytesOf ''server'' \<in> set commonHeaders" "bytesOf ''date'' \<noteq> bytesOf ''server''"
    by code_simp+
  have keys: "10 \<in> keysIn (set commonHeaders) demoNames" "30 \<in> keysIn (set commonHeaders) demoNames"
    "50 \<in> keysIn (set commonHeaders) demoNames"
    unfolding keysIn_def using demoNames_strings low by force+
  show ?thesis
    using common_names_told_apart [OF keys(1,2)] common_names_told_apart [OF keys(1,3)]
      demoNames_strings [THEN nameIn_cstr] low by simp
qed

text \<open>\<open>hashKeyCompare\<close> returns whenever its first argument is a terminated string.\<close>

lemma hashKeyCompare_returns:
  assumes "isCstr c a s"
  shows "\<exists>r. hashKeyCompare c a b = Some r"
  using hashKeyCompareLoop_returns [OF assms, of 0 b] by (auto simp: hashKeyCompare_def)

text \<open>C36: \<open>hashKeyCompare\<close> is inverted: two names count as equal as soon as the first letter of
  one differs from the third of the other, whatever the names are.\<close>

theorem hashKeyCompare_accepts_different_names:
  assumes "a \<noteq> b" "isCstr c a s" "isCstr c b t" "2 \<le> length t" "0x40 < nameAt t 0"
    and "TOLOWER (nameAt s 0) \<noteq> nameAt t 2" "TOLOWER (nameAt s 0) \<noteq> nameAt t 2 OR 0x60"
  shows "hashKeyCompare c a b = Some True"
proof -
  have at: "c a = nameAt s 0" "c b = nameAt t 0" "c (b + 2) = nameAt t 2"
    using isCstr_byte [OF assms(2), of 0] isCstr_byte [OF assms(3), of 0] isCstr_byte [OF assms(3), of 2] assms(4)
    by simp_all
  have "TOLOWER (c a) \<noteq> fst (tolowerInc c b)" using at assms(5-7) by (simp add: tolowerInc_def)
  then show ?thesis using assms(1) by (simp add: hashKeyCompare_def hashKeyCompareLoop_step [of c a b])
qed

theorem hashKeyCompare_accepts_different_names_witness:
  "hashKeyCompare (chars demoNames) 10 50 = Some True"
proof -
  have c: "2 \<le> length (bytesOf ''Server'')" "0x40 < nameAt (bytesOf ''Server'') 0"
    "TOLOWER (nameAt (bytesOf ''Date'') 0) \<noteq> nameAt (bytesOf ''Server'') 2"
    "TOLOWER (nameAt (bytesOf ''Date'') 0) \<noteq> nameAt (bytesOf ''Server'') 2 OR 0x60"
    by code_simp+
  show ?thesis by (rule hashKeyCompare_accepts_different_names [OF _ demoNames_strings(1,3) c]) simp
qed




end
