(* ===== verification/CurlData.thy ===== *)
theory CurlData
  imports HeaderKeys
begin

text \<open>
  The state of a connection, \<open>struct curl_data\<close>, with the flag words, the error numbers and the
  spin lock of \<open>native-lib.c\<close>, and the part of the Java side that the native code can see:
  byte arrays and the exceptions it raises.
\<close>

section \<open>Options, flags and errors\<close>

datatype OPTIONS = KEEPALIVE_PERIOD | CONTINUE_TIMEOUT | CONN_CACHE_SIZE | MAX_REDIRECT_COUNT

definition FLAG_DEBUG :: u32 where "FLAG_DEBUG = 1"
definition FLAG_SEND_AFTER_ERROR :: u32 where "FLAG_SEND_AFTER_ERROR = push_bit 1 1"
definition FLAG_TCP_KEEP_ALIVE :: u32 where "FLAG_TCP_KEEP_ALIVE = push_bit 2 1"
definition FLAG_TLS_FALSE_START :: u32 where "FLAG_TLS_FALSE_START = push_bit 3 1"
definition FLAG_TCP_FAST_OPEN :: u32 where "FLAG_TCP_FAST_OPEN = push_bit 4 1"
definition FLAG_RAW_RESPONSE :: u32 where "FLAG_RAW_RESPONSE = push_bit 5 1"
definition FLAG_TCP_NODELAY :: u32 where "FLAG_TCP_NODELAY = push_bit 6 1"
definition FLAG_USE_IPV6 :: u32 where "FLAG_USE_IPV6 = push_bit 7 1"
definition FLAG_REQUEST_COMPRESSION :: u32 where "FLAG_REQUEST_COMPRESSION = push_bit 8 1"

definition STATE_ATTACHED :: u32 where "STATE_ATTACHED = push_bit 0 1"
definition STATE_HANDLE_REDIRECT :: u32 where "STATE_HANDLE_REDIRECT = push_bit 1 1"
definition STATE_DO_INPUT :: u32 where "STATE_DO_INPUT = push_bit 2 1"
definition STATE_RECV_PAUSED :: u32 where "STATE_RECV_PAUSED = push_bit 3 1"
definition STATE_DO_OUTPUT :: u32 where "STATE_DO_OUTPUT = push_bit 4 1"
definition STATE_SEND_PAUSED :: u32 where "STATE_SEND_PAUSED = push_bit 5 1"
definition STATE_NEED_INPUT :: u32 where "STATE_NEED_INPUT = push_bit 6 1"
definition STATE_NEED_OUTPUT :: u32 where "STATE_NEED_OUTPUT = push_bit 7 1"
definition STATE_DONE_SENDING :: u32 where "STATE_DONE_SENDING = push_bit 8 1"
definition STATE_SEEN_HEADER_END :: u32 where "STATE_SEEN_HEADER_END = push_bit 9 1"

lemmas FLAG_defs = FLAG_DEBUG_def FLAG_SEND_AFTER_ERROR_def FLAG_TCP_KEEP_ALIVE_def
  FLAG_TLS_FALSE_START_def FLAG_TCP_FAST_OPEN_def FLAG_RAW_RESPONSE_def FLAG_TCP_NODELAY_def
  FLAG_USE_IPV6_def FLAG_REQUEST_COMPRESSION_def

lemmas STATE_defs = STATE_ATTACHED_def STATE_HANDLE_REDIRECT_def STATE_DO_INPUT_def
  STATE_RECV_PAUSED_def STATE_DO_OUTPUT_def STATE_SEND_PAUSED_def STATE_NEED_INPUT_def
  STATE_NEED_OUTPUT_def STATE_DONE_SENDING_def STATE_SEEN_HEADER_END_def

datatype error_type =
    ERROR_USE_SYNCHRONIZATION | ERROR_DNS_FAILURE | ERROR_NOT_EVEN_HTTP
  | ERROR_SOCKET_CONNECT_REFUSED | ERROR_SOCKET_CONNECT_TIMEOUT | ERROR_SOCKET_READ_TIMEOUT
  | ERROR_RETRY_IMPOSSIBLE | ERROR_BAD_URL | ERROR_INTERFACE_BINDING_FAILED | ERROR_SSL_FAIL
  | ERROR_SOCKET_MYSTERY | ERROR_OOM | ERROR_PROTOCOL | ERROR_ILLEGAL_STATE | ERROR_INTERRUPTED
  | ERROR_CLOSED

definition HEADER_BUF_SIZE_DEFAULT :: u32 where "HEADER_BUF_SIZE_DEFAULT = 20"
definition MAX_LOCAL_ALLOC :: nat where "MAX_LOCAL_ALLOC = 1024 * 8"

section \<open>State\<close>

text \<open>
  Fields in the order of the C structure, but for the handles \<open>curl\<close>, \<open>multi\<close> and \<open>env\<close>:
  the state behind them is in the extension \<open>native\<close> below.  \<open>outHeaders\<close> is the
  \<open>curl_slist\<close> of request header lines, NULL when empty.  \<open>headerPairs\<close> is the array of
  \<open>void*\<close>.  The \<open>jint\<close> fields are integers; the \<open>uint\<close> fields have their width.
\<close>

type_synonym jref = nat
type_synonym jstring = "u16 list"

record curl_data =
  outHeaders :: "u8 list list"
  bufferForReceiving :: "jref option"
  bufferForSending :: "jref option"
  headers :: "(cmem, addr, addr) Hashmap"
  headerPairs :: "nat \<Rightarrow> addr"
  headerBufSize :: u32
  headerPairCount :: u16
  maxHeaderLength :: u16
  uploadedCount :: u64
  uploadGoal :: u64
  state :: u32
  readOffset :: int
  countToRead :: int
  readOverflow :: int
  writeOffset :: int
  countToWrite :: int
  connTimeout :: int
  readTimeout :: int
  interrupted :: int
  busy :: u32
  outHeaderCount :: u16
  errorBuffer :: "u8 list"

text \<open>What \<open>Curl.throwException\<close> or \<open>ThrowNew\<close> is called with, and what JNI throws itself: \<open>JvmException\<close> is any exception of the virtual machine for which the code only checks a NULL.\<close>

datatype jexn =
    ThrowException "u8 list option" error_type int
  | ThrowIOException "u8 list"
  | ArrayIndexOutOfBounds
  | JvmException

text \<open>
  The options that the code sets on its curl handle, and their values: a number, a string, a
  header list, one of the code's callbacks, or a pointer to its own structure.  \<open>CURLMOPT_MAXCONNECTS\<close>
  is an option of the other interface that \<open>setOptionInt\<close> passes to \<open>curl_easy_setopt\<close>.
\<close>

datatype curlopt =
    CURLOPT_CONNECTTIMEOUT_MS | CURLOPT_HTTP_VERSION | CURLOPT_SSL_VERIFYPEER
  | CURLOPT_PROXY_SSL_VERIFYPEER | CURLOPT_SSL_VERIFYHOST | CURLOPT_PROXY_SSL_VERIFYHOST
  | CURLOPT_SSL_OPTIONS | CURLOPT_VERBOSE | CURLOPT_DEBUGFUNCTION | CURLOPT_HTTP_TRANSFER_DECODING
  | CURLOPT_HTTP_CONTENT_DECODING | CURLOPT_IPRESOLVE | CURLOPT_TRANSFER_ENCODING | CURLOPT_TCP_NODELAY
  | CURLOPT_KEEP_SENDING_ON_ERROR | CURLOPT_SSL_FALSESTART | CURLOPT_TCP_FASTOPEN | CURLOPT_TCP_KEEPALIVE
  | CURLOPT_NETRC | CURLOPT_SEEKFUNCTION | CURLOPT_WRITEFUNCTION | CURLOPT_READFUNCTION
  | CURLOPT_OPENSOCKETFUNCTION | CURLOPT_HEADERFUNCTION | CURLOPT_WRITEDATA | CURLOPT_READDATA
  | CURLOPT_HEADERDATA | CURLOPT_NOSIGNAL | CURLOPT_PATH_AS_IS | CURLOPT_SUPPRESS_CONNECT_HEADERS
  | CURLOPT_ERRORBUFFER | CURLOPT_URL | CURLOPT_FOLLOWLOCATION | CURLOPT_PROXYTYPE | CURLOPT_PROXY
  | CURLOPT_PRE_PROXY | CURLOPT_UPLOAD | CURLOPT_NOBODY | CURLOPT_HTTPGET | CURLOPT_CUSTOMREQUEST
  | CURLOPT_INFILESIZE_LARGE | CURLOPT_HTTPHEADER | CURLOPT_DNS_SERVERS | CURLOPT_INTERFACE
  | CURLOPT_TCP_KEEPINTVL | CURLOPT_TCP_KEEPIDLE | CURLOPT_EXPECT_100_TIMEOUT_MS | CURLOPT_MAXREDIRS
  | CURLMOPT_MAXCONNECTS

datatype callback =
    Read_callback | Eof_callback | Connect_and_pause_callback | Abort_receive_callback
  | Skip_receive_callback | Write_callback | Header_callback | Seek_callback | Opensocket_callback
  | Logcat_tracer

datatype optval = OptLong int | OptString "u8 list option" | OptList "u8 list list" | OptFun callback | OptSelf

text \<open>
  The whole native world.  \<open>pairsBytes\<close> is the size of the block behind \<open>headerPairs\<close>.  \<open>thrown\<close>
  are all exceptions raised so far, and \<open>pending\<close> tells whether one was raised since Java made the
  call, which is what \<open>ExceptionCheck\<close> answers.  \<open>easyOpts\<close> are the options set so far; \<open>'w\<close> is the
  state of curl and of the operating system.
\<close>

record 'w native = curl_data +
  mem :: cmem
  pairsBytes :: nat
  jarrays :: "jref \<Rightarrow> u8 list"
  thrown :: "jexn list"
  pending :: bool
  easyOpts :: "curlopt \<Rightarrow> optval option"
  ext :: 'w

definition setopt :: "curlopt \<Rightarrow> optval \<Rightarrow> 'w native \<Rightarrow> 'w native" where
  "setopt opt v s = s\<lparr>easyOpts := (easyOpts s)(opt := Some v)\<rparr>"

section \<open>The state macros\<close>

definition hasState :: "'a curl_data_scheme \<Rightarrow> u32 \<Rightarrow> bool" where
  "hasState i f \<longleftrightarrow> state i AND f \<noteq> 0"

definition SET_ATTACHED :: "'a curl_data_scheme \<Rightarrow> 'a curl_data_scheme" where
  "SET_ATTACHED i = i\<lparr>state := state i OR STATE_ATTACHED\<rparr>"
definition SET_DETACHED :: "'a curl_data_scheme \<Rightarrow> 'a curl_data_scheme" where
  "SET_DETACHED i = i\<lparr>state := state i AND NOT STATE_ATTACHED\<rparr>"
definition SET_DO_INPUT :: "'a curl_data_scheme \<Rightarrow> 'a curl_data_scheme" where
  "SET_DO_INPUT i = i\<lparr>state := state i OR STATE_DO_INPUT\<rparr>"
definition SET_DO_NO_INPUT :: "'a curl_data_scheme \<Rightarrow> 'a curl_data_scheme" where
  "SET_DO_NO_INPUT i = i\<lparr>state := state i AND NOT STATE_DO_INPUT\<rparr>"
definition SET_DO_OUTPUT :: "'a curl_data_scheme \<Rightarrow> 'a curl_data_scheme" where
  "SET_DO_OUTPUT i = i\<lparr>state := state i OR STATE_DO_OUTPUT\<rparr>"
definition SET_DO_NO_OUTPUT :: "'a curl_data_scheme \<Rightarrow> 'a curl_data_scheme" where
  "SET_DO_NO_OUTPUT i = i\<lparr>state := state i AND NOT STATE_DO_OUTPUT\<rparr>"
definition SET_SEND_PAUSED :: "'a curl_data_scheme \<Rightarrow> 'a curl_data_scheme" where
  "SET_SEND_PAUSED i = i\<lparr>state := state i OR STATE_SEND_PAUSED\<rparr>"
definition SET_SEND_UNPAUSED :: "'a curl_data_scheme \<Rightarrow> 'a curl_data_scheme" where
  "SET_SEND_UNPAUSED i = i\<lparr>state := state i AND NOT STATE_SEND_PAUSED\<rparr>"
definition SET_RECV_PAUSED :: "'a curl_data_scheme \<Rightarrow> 'a curl_data_scheme" where
  "SET_RECV_PAUSED i = i\<lparr>state := state i OR STATE_RECV_PAUSED\<rparr>"
definition SET_RECV_UNPAUSED :: "'a curl_data_scheme \<Rightarrow> 'a curl_data_scheme" where
  "SET_RECV_UNPAUSED i = i\<lparr>state := state i AND NOT STATE_RECV_PAUSED\<rparr>"
definition SET_HANDLE_REDIRECT :: "'a curl_data_scheme \<Rightarrow> 'a curl_data_scheme" where
  "SET_HANDLE_REDIRECT i = i\<lparr>state := state i OR STATE_HANDLE_REDIRECT\<rparr>"
definition SET_DONT_HANDLE_REDIRECT :: "'a curl_data_scheme \<Rightarrow> 'a curl_data_scheme" where
  "SET_DONT_HANDLE_REDIRECT i = i\<lparr>state := state i AND NOT STATE_HANDLE_REDIRECT\<rparr>"
definition SET_NEED_INPUT :: "'a curl_data_scheme \<Rightarrow> 'a curl_data_scheme" where
  "SET_NEED_INPUT i = i\<lparr>state := state i OR STATE_NEED_INPUT\<rparr>"
definition SET_NEED_NO_INPUT :: "'a curl_data_scheme \<Rightarrow> 'a curl_data_scheme" where
  "SET_NEED_NO_INPUT i = i\<lparr>state := state i AND NOT STATE_NEED_INPUT\<rparr>"
definition SET_NEED_OUTPUT :: "'a curl_data_scheme \<Rightarrow> 'a curl_data_scheme" where
  "SET_NEED_OUTPUT i = i\<lparr>state := state i OR STATE_NEED_OUTPUT\<rparr>"
definition SET_NEED_NO_OUTPUT :: "'a curl_data_scheme \<Rightarrow> 'a curl_data_scheme" where
  "SET_NEED_NO_OUTPUT i = i\<lparr>state := state i AND NOT STATE_NEED_OUTPUT\<rparr>"
definition SET_DONE_SENDING :: "'a curl_data_scheme \<Rightarrow> 'a curl_data_scheme" where
  "SET_DONE_SENDING i = i\<lparr>state := state i OR STATE_DONE_SENDING\<rparr>"
definition SET_NOT_DONE_SENDING :: "'a curl_data_scheme \<Rightarrow> 'a curl_data_scheme" where
  "SET_NOT_DONE_SENDING i = i\<lparr>state := state i AND NOT STATE_DONE_SENDING\<rparr>"
definition SET_SEEN_HEADER_END :: "'a curl_data_scheme \<Rightarrow> 'a curl_data_scheme" where
  "SET_SEEN_HEADER_END i = i\<lparr>state := state i OR STATE_SEEN_HEADER_END\<rparr>"
definition SET_SEEN_NO_HEADER_END :: "'a curl_data_scheme \<Rightarrow> 'a curl_data_scheme" where
  "SET_SEEN_NO_HEADER_END i = i\<lparr>state := state i AND NOT STATE_SEEN_HEADER_END\<rparr>"

lemmas SET_defs = SET_ATTACHED_def SET_DETACHED_def SET_DO_INPUT_def SET_DO_NO_INPUT_def
  SET_DO_OUTPUT_def SET_DO_NO_OUTPUT_def SET_SEND_PAUSED_def SET_SEND_UNPAUSED_def
  SET_RECV_PAUSED_def SET_RECV_UNPAUSED_def SET_HANDLE_REDIRECT_def SET_DONT_HANDLE_REDIRECT_def
  SET_NEED_INPUT_def SET_NEED_NO_INPUT_def SET_NEED_OUTPUT_def SET_NEED_NO_OUTPUT_def
  SET_DONE_SENDING_def SET_NOT_DONE_SENDING_def SET_SEEN_HEADER_END_def SET_SEEN_NO_HEADER_END_def

section \<open>The spin lock\<close>

text \<open>\<open>__sync_lock_test_and_set\<close> stores 1 and returns the old value; the lock is taken when
  that was 0.\<close>

definition ACQUIRE :: "'a curl_data_scheme \<Rightarrow> bool \<times> 'a curl_data_scheme" where
  "ACQUIRE i = (busy i = 0, i\<lparr>busy := 1\<rparr>)"

definition RELEASE :: "'a curl_data_scheme \<Rightarrow> 'a curl_data_scheme" where
  "RELEASE i = i\<lparr>busy := 0\<rparr>"

section \<open>Raising Java exceptions\<close>

definition throwExn :: "jexn \<Rightarrow> 'w native \<Rightarrow> 'w native" where
  "throwExn e s = s\<lparr>thrown := thrown s @ [e], pending := True\<rparr>"

text \<open>The body of \<open>throwInterruptedException\<close> is commented out.\<close>

definition throwInterruptedException :: "int \<Rightarrow> 'w native \<Rightarrow> 'w native" where
  "throwInterruptedException cnt s = s"

definition throwThreadingException :: "'w native \<Rightarrow> 'w native" where
  "throwThreadingException s = throwExn (ThrowException None ERROR_USE_SYNCHRONIZATION 0) s"

definition oomThrow :: "'w native \<Rightarrow> 'w native" where
  "oomThrow s = throwExn (ThrowException None ERROR_OOM 0) s"

definition throwTimeout :: "int \<Rightarrow> 'w native \<Rightarrow> 'w native" where
  "throwTimeout transferred s =
     (let errorType = if transferred > 0 then ERROR_SOCKET_READ_TIMEOUT else ERROR_SOCKET_CONNECT_TIMEOUT
      in throwExn (ThrowException None errorType 0) s)"

definition throwOther :: "u8 list \<Rightarrow> error_type \<Rightarrow> 'w native \<Rightarrow> 'w native" where
  "throwOther error errType s = throwExn (ThrowException (Some error) errType 0) s"

section \<open>Java byte arrays\<close>

text \<open>\<open>GetByteArrayRegion\<close> at \<open>writeOffset\<close>: the bytes, or an exception out of range.\<close>

definition array_read :: "jref \<Rightarrow> int \<Rightarrow> 'w native \<Rightarrow> u8 list \<times> 'w native" where
  "array_read buf cnt s =
     (let a = jarrays s buf; off = writeOffset s in
      if 0 \<le> off \<and> 0 \<le> cnt \<and> off + cnt \<le> int (length a)
      then (take (nat cnt) (drop (nat off) a), s)
      else ([], throwExn ArrayIndexOutOfBounds s))"

text \<open>\<open>SetByteArrayRegion\<close> at \<open>readOffset\<close> of the first \<open>cnt\<close> bytes of \<open>data\<close>.\<close>

definition array_write :: "jref \<Rightarrow> u8 list \<Rightarrow> int \<Rightarrow> 'w native \<Rightarrow> 'w native" where
  "array_write buf data cnt s =
     (let a = jarrays s buf; off = readOffset s in
      if 0 \<le> off \<and> 0 \<le> cnt \<and> off + cnt \<le> int (length a)
      then s\<lparr>jarrays := (jarrays s)(buf :=
             take (nat off) a @ take (nat cnt) data @ drop (nat (off + cnt)) a)\<rparr>
      else throwExn ArrayIndexOutOfBounds s)"

section \<open>Lemmas on flags\<close>

lemma and_bit_test: "x AND push_bit n 1 \<noteq> 0 \<longleftrightarrow> bit x n" if "n < LENGTH('a)" for x :: "'a::len word"
proof
  assume "x AND push_bit n 1 \<noteq> 0"
  then obtain k where "bit (x AND push_bit n 1) k" by (auto simp: bit_eq_iff)
  then show "bit x n" by (auto simp: bit_simps)
next
  assume "bit x n"
  then have "bit (x AND push_bit n 1) n" using that by (auto simp: bit_simps)
  then show "x AND push_bit n 1 \<noteq> 0" by auto
qed

lemma hasState_bit [flag_simps]:
  "hasState s STATE_ATTACHED = bit (state s) 0"
  "hasState s STATE_HANDLE_REDIRECT = bit (state s) 1"
  "hasState s STATE_DO_INPUT = bit (state s) 2"
  "hasState s STATE_RECV_PAUSED = bit (state s) 3"
  "hasState s STATE_DO_OUTPUT = bit (state s) 4"
  "hasState s STATE_SEND_PAUSED = bit (state s) 5"
  "hasState s STATE_NEED_INPUT = bit (state s) 6"
  "hasState s STATE_NEED_OUTPUT = bit (state s) 7"
  "hasState s STATE_DONE_SENDING = bit (state s) 8"
  "hasState s STATE_SEEN_HEADER_END = bit (state s) 9"
  unfolding hasState_def STATE_defs by (subst and_bit_test, simp, rule refl)+

lemma bit_set_flag [flag_simps]:
  "bit (x OR push_bit n 1) k \<longleftrightarrow> bit x k \<or> k = n" if "n < LENGTH('a)" for x :: "'a::len word"
  using that by (auto simp: bit_simps)

lemma bit_clear_flag [flag_simps]:
  "bit (x AND NOT (push_bit n 1)) k \<longleftrightarrow> bit x k \<and> k \<noteq> n" if "n < LENGTH('a)" for x :: "'a::len word"
  using that by (auto simp: bit_simps dest: bit_imp_le_length)

lemma state_update: "state (i\<lparr>state := x\<rparr>) = x"
  by simp

lemma bit_SET [flag_simps]:
  "bit (state (SET_ATTACHED s)) k \<longleftrightarrow> bit (state s) k \<or> k = 0"
  "bit (state (SET_DETACHED s)) k \<longleftrightarrow> bit (state s) k \<and> k \<noteq> 0"
  "bit (state (SET_HANDLE_REDIRECT s)) k \<longleftrightarrow> bit (state s) k \<or> k = 1"
  "bit (state (SET_DONT_HANDLE_REDIRECT s)) k \<longleftrightarrow> bit (state s) k \<and> k \<noteq> 1"
  "bit (state (SET_DO_INPUT s)) k \<longleftrightarrow> bit (state s) k \<or> k = 2"
  "bit (state (SET_DO_NO_INPUT s)) k \<longleftrightarrow> bit (state s) k \<and> k \<noteq> 2"
  "bit (state (SET_RECV_PAUSED s)) k \<longleftrightarrow> bit (state s) k \<or> k = 3"
  "bit (state (SET_RECV_UNPAUSED s)) k \<longleftrightarrow> bit (state s) k \<and> k \<noteq> 3"
  "bit (state (SET_DO_OUTPUT s)) k \<longleftrightarrow> bit (state s) k \<or> k = 4"
  "bit (state (SET_DO_NO_OUTPUT s)) k \<longleftrightarrow> bit (state s) k \<and> k \<noteq> 4"
  "bit (state (SET_SEND_PAUSED s)) k \<longleftrightarrow> bit (state s) k \<or> k = 5"
  "bit (state (SET_SEND_UNPAUSED s)) k \<longleftrightarrow> bit (state s) k \<and> k \<noteq> 5"
  "bit (state (SET_NEED_INPUT s)) k \<longleftrightarrow> bit (state s) k \<or> k = 6"
  "bit (state (SET_NEED_NO_INPUT s)) k \<longleftrightarrow> bit (state s) k \<and> k \<noteq> 6"
  "bit (state (SET_NEED_OUTPUT s)) k \<longleftrightarrow> bit (state s) k \<or> k = 7"
  "bit (state (SET_NEED_NO_OUTPUT s)) k \<longleftrightarrow> bit (state s) k \<and> k \<noteq> 7"
  "bit (state (SET_DONE_SENDING s)) k \<longleftrightarrow> bit (state s) k \<or> k = 8"
  "bit (state (SET_NOT_DONE_SENDING s)) k \<longleftrightarrow> bit (state s) k \<and> k \<noteq> 8"
  "bit (state (SET_SEEN_HEADER_END s)) k \<longleftrightarrow> bit (state s) k \<or> k = 9"
  "bit (state (SET_SEEN_NO_HEADER_END s)) k \<longleftrightarrow> bit (state s) k \<and> k \<noteq> 9"
  unfolding SET_defs STATE_defs
  by (simp_all only: state_update)
     ((subst bit_set_flag, simp, rule refl | subst bit_clear_flag, simp, rule refl)+)

lemma ACQUIRE_simps [simp]:
  "fst (ACQUIRE s) \<longleftrightarrow> busy s = 0" "busy (snd (ACQUIRE s)) = 1" "busy (RELEASE s) = 0"
  by (simp_all add: ACQUIRE_def RELEASE_def)

end
