(* ===== verification/HeaderStore.thy ===== *)
theory HeaderStore
  imports CurlData
begin

text \<open>
  The store of response headers of \<open>native-lib.c\<close>: \<open>header_callback\<close>, which curl calls with
  every header line, and the functions that read the store back.  Every header is one
  \<open>malloc\<close> block \<open>struct curl_hdr\<close> with its \<open>ref\<close> field at offset 0, the value from offset 8
  on, and the name after the value.  The blocks of the headers with the same name form a ring
  through \<open>ref\<close>; the header map has the last one.  \<open>headerPairs\<close> lists value and name of all
  of them in order of arrival, after the status line.

  What the allocator answers to a call of \<open>header_callback\<close> is the argument \<open>hdr_env\<close>; what the
  Java virtual machine answers to the reading functions is \<open>jvm_env\<close>.  A logged \<open>NullAccess\<close>
  is where the process would be killed.
\<close>

record hdr_env =
  pairAddr :: addr
  entryRes :: heap_res
  realloc_ok :: bool

record jvm_env =
  temp_ok :: bool
  array_ok :: bool
  frame_ok :: bool
  grow_ok :: bool
  string_ok :: "nat \<Rightarrow> bool"
  char_signed :: bool
  decodeUtf :: "u8 list \<Rightarrow> jstring"

definition logFault :: "fault \<Rightarrow> 'w native \<Rightarrow> 'w native" where
  "logFault f s = s\<lparr>mem := (mem s)\<lparr>faults := faults (mem s) @ [f]\<rparr>\<rparr>"

section \<open>Storing\<close>

function releaseLoop :: "(nat \<Rightarrow> addr) \<Rightarrow> nat \<Rightarrow> nat \<Rightarrow> cmem \<Rightarrow> cmem" where
  "releaseLoop pairs n i m = (if i < n then releaseLoop pairs n (i + 2) (cfree (pairs i) m) else m)"
  by pat_completeness auto
termination
  by (relation "measure (\<lambda>(pairs, n, i, m). n - i)") auto

declare releaseLoop.simps [simp del]

definition releaseHeaders :: "'w native \<Rightarrow> 'w native" where
  "releaseHeaders s =
     s\<lparr>mem := releaseLoop (headerPairs s) (unat (headerPairCount s)) 0 (mem s),
       headerPairCount := 0\<rparr>"

text \<open>The size of a pointer in the LP64 ABIs.  The result is true when the array could not be enlarged.\<close>

definition sizeof_ptr :: nat where "sizeof_ptr = 8"

definition headers_ensure_capacity :: "bool \<Rightarrow> nat \<Rightarrow> 'w native \<Rightarrow> bool \<times> 'w native" where
  "headers_ensure_capacity realloc_succeeds newItemCapacity s =
     (if newItemCapacity \<le> unat (headerBufSize s) then (False, s)
      else let targetItemCapacity = newItemCapacity * 3 div 2 in
        if \<not> realloc_succeeds then (True, oomThrow s)
        else (False, s\<lparr>pairsBytes := sizeof_ptr * 2 * targetItemCapacity, headerBufSize := of_nat targetItemCapacity\<rparr>))"

text \<open>The trimming functions move the ends of a range, here its start and its length.\<close>

fun wsp_trim_start :: "(addr \<Rightarrow> u8) \<Rightarrow> addr \<Rightarrow> nat \<Rightarrow> addr \<times> nat" where
  "wsp_trim_start c first 0 = (first, 0)"
| "wsp_trim_start c first (Suc n) =
     (if c first = 0x20 then wsp_trim_start c (first + 1) n else (first, Suc n))"

fun wsp_trim_end :: "(addr \<Rightarrow> u8) \<Rightarrow> addr \<Rightarrow> nat \<Rightarrow> nat" where
  "wsp_trim_end c first 0 = 0"
| "wsp_trim_end c first (Suc n) =
     (let b = c (first + int n) in
      if b = 0 \<or> b = 0x20 \<or> b = 0x0d \<or> b = 0x0a then wsp_trim_end c first n else Suc n)"

definition wsp_trim :: "(addr \<Rightarrow> u8) \<Rightarrow> addr \<Rightarrow> nat \<Rightarrow> addr \<times> nat" where
  "wsp_trim c first n =
     (let (first', n') = wsp_trim_start c first n in (first', wsp_trim_end c first' n'))"

function findColon :: "(addr \<Rightarrow> u8) \<Rightarrow> addr \<Rightarrow> nat \<Rightarrow> nat \<Rightarrow> nat" where
  "findColon c buffer bufferLength i =
     (if i < bufferLength
      then (if c (buffer + int i) = 0x3a then i else findColon c buffer bufferLength (Suc i))
      else i)"
  by pat_completeness auto
termination
  by (relation "measure (\<lambda>(c, buffer, n, i). n - i)") auto

declare findColon.simps [simp del]

definition endsCrlf :: "(addr \<Rightarrow> u8) \<Rightarrow> addr \<Rightarrow> nat \<Rightarrow> bool" where
  "endsCrlf c buffer bufferLength \<longleftrightarrow>
     c (buffer + int bufferLength - 2) = 0x0d \<and> c (buffer + int bufferLength - 1) = 0x0a"

definition isStatusLine :: "(addr \<Rightarrow> u8) \<Rightarrow> addr \<Rightarrow> nat \<Rightarrow> bool" where
  "isStatusLine c buffer i \<longleftrightarrow>
     i > 5 \<and> c buffer = 0x48 \<and> c (buffer + 1) = 0x54 \<and> c (buffer + 2) = 0x54 \<and>
     c (buffer + 3) = 0x50 \<and> c (buffer + 4) = 0x2f"

text \<open>A status line: the headers of an earlier response go; the old count is returned.\<close>

definition beginResponse :: "'w native \<Rightarrow> u16 \<times> 'w native" where
  "beginResponse s =
     (let s' = if hasState s STATE_SEEN_HEADER_END
               then SET_SEEN_NO_HEADER_END (releaseHeaders (s\<lparr>headers := snd (hashmapClear (headers s))\<rparr>))
               else s
      in (headerPairCount s', s'\<lparr>headerPairCount := 0\<rparr>))"

text \<open>Filling a new block \<open>p\<close> with value and name; the place of the name is returned.\<close>

definition fillPair :: "addr \<Rightarrow> addr \<Rightarrow> nat \<Rightarrow> addr \<Rightarrow> nat \<Rightarrow> cmem \<Rightarrow> addr \<times> cmem" where
  "fillPair p buffer keyLen valStart valueLen m =
     (let newHeaderPos = p + 8 + int valueLen + 1;
          c1 = (strncpy (chars m) (p + 8) valStart valueLen)(p + 8 + int valueLen := 0);
          c2 = (strncpy c1 newHeaderPos buffer keyLen)(newHeaderPos + int keyLen := 0)
      in (newHeaderPos,
          m\<lparr>chars := c2, blocks := (blocks m)(p := Some (keyLen + 8 + valueLen + 2))\<rparr>))"

text \<open>Entering a new block into the map and into the ring of its name.\<close>

definition linkHeader :: "heap_res \<Rightarrow> addr \<Rightarrow> addr \<Rightarrow> 'w native \<Rightarrow> addr \<times> 'w native" where
  "linkHeader a newHeaderPos newValuePos s =
     (let m = mem s; hm = headers s in
      case entryGet m hm newHeaderPos of
        None \<Rightarrow>
          (newHeaderPos,
           s\<lparr>headers := snd (snd (hashmapPut a m hm newHeaderPos newValuePos)),
             mem := m\<lparr>refs := (refs m)(newValuePos := newValuePos)\<rparr>\<rparr>)
      | Some old \<Rightarrow>
          (let existing = evalue (entryAt hm old) in
           (key (entryAt hm old),
            s\<lparr>headers := setEntryValue hm old newValuePos,
              mem := m\<lparr>refs := (refs m)(newValuePos := refs m existing, existing := newValuePos)\<rparr>\<rparr>)))"

definition noteLength :: "nat \<Rightarrow> 'w native \<Rightarrow> 'w native" where
  "noteLength len s =
     (if len > unat (maxHeaderLength s) then s\<lparr>maxHeaderLength := of_nat len\<rparr> else s)"

text \<open>From the label \<open>skip\<close> on; the result is false when the array could not be enlarged.\<close>

definition storePair :: "bool \<Rightarrow> bool \<Rightarrow> u16 \<Rightarrow> addr \<Rightarrow> addr \<Rightarrow> 'w native \<Rightarrow> bool \<times> 'w native" where
  "storePair realloc_succeeds statusLine oldHeaderCount newValuePos newHeaderPos s =
     (case headers_ensure_capacity realloc_succeeds (unat (headerPairCount s) + 1) s of
        (failed, s1) \<Rightarrow>
          if failed then (False, s1)
          else
            let oldEnd = unat (headerPairCount s1) * 2;
                s2 = s1\<lparr>headerPairs := (headerPairs s1)(oldEnd := newValuePos, oldEnd + 1 := newHeaderPos)\<rparr>;
                s3 = if statusLine then s2\<lparr>headerPairCount := oldHeaderCount\<rparr> else s2
            in (True, s3\<lparr>headerPairCount := headerPairCount s3 + 1\<rparr>))"

definition header_callback :: "hdr_env \<Rightarrow> addr \<Rightarrow> nat \<Rightarrow> nat \<Rightarrow> 'w native \<Rightarrow> nat \<times> 'w native" where
  "header_callback he buffer sz nitems s =
     (let c = chars (mem s);
          bufferLength = sz * nitems;
          i = findColon c buffer bufferLength 0;
          special = (i = bufferLength \<and> endsCrlf c buffer bufferLength);
          statusLine = (special \<and> isStatusLine c buffer i)
      in if special \<and> \<not> statusLine then (bufferLength, SET_SEEN_HEADER_END s)
         else
           let (oldHeaderCount, s1) = (if statusLine then beginResponse s else (0, s));
               keyLen = wsp_trim_end c buffer i;
               (valStart, valueLen) = wsp_trim c (buffer + int i + 1) (bufferLength - i);
               p = pairAddr he
           in if p = 0 then (0, logFault NullAccess s1)
              else
                let (newHeaderPos, m2) = fillPair p buffer keyLen valStart valueLen (mem s1);
                    s2 = s1\<lparr>mem := m2\<rparr>;
                    (newHeaderPos, s3) =
                      (if statusLine then (newHeaderPos, s2)
                       else case linkHeader (entryRes he) newHeaderPos p s2 of
                              (k, s') \<Rightarrow> (k, noteLength valueLen (noteLength keyLen s')));
                    (stored, s4) = storePair (realloc_ok he) statusLine oldHeaderCount p newHeaderPos s3
                in (if stored then bufferLength else 0, s4))"

section \<open>Reading back\<close>

definition toJchar :: "bool \<Rightarrow> u8 \<Rightarrow> u16" where
  "toJchar is_signed b = (if is_signed then scast b else ucast b)"

text \<open>\<open>headerToString\<close> of the given bytes through a buffer of \<open>capacity\<close> characters.\<close>

definition headerToString :: "jvm_env \<Rightarrow> nat \<Rightarrow> u8 list \<Rightarrow> 'w native \<Rightarrow> jstring \<times> 'w native" where
  "headerToString je capacity str s =
     (map (toJchar (char_signed je)) str,
      if length str \<le> capacity then s
      else logFault (OverflowingWrite (length str - capacity)) s)"

definition cstring :: "cmem \<Rightarrow> addr \<Rightarrow> u8 list" where
  "cstring m p = memBytes (chars m) p (strlen (chars m) p)"

definition setElement :: "jstring option list \<Rightarrow> int \<Rightarrow> jstring \<Rightarrow> 'w native
    \<Rightarrow> jstring option list \<times> 'w native" where
  "setElement arr pos x s =
     (if 0 \<le> pos \<and> pos < int (length arr) then (arr[nat pos := Some x], s)
      else (arr, throwExn ArrayIndexOutOfBounds s))"

text \<open>
  The \<open>do ... while\<close> over the ring of values.  The inner \<open>None\<close> is the \<open>goto cleanup\<close> after
  a failed \<open>NewString\<close>; the outer one is a loop that never comes back to \<open>first\<close>.
\<close>

partial_function (option) valuesLoop ::
  "jvm_env \<Rightarrow> nat \<Rightarrow> addr \<Rightarrow> addr \<Rightarrow> jstring option list \<times> nat \<times> 'w native
    \<Rightarrow> ((jstring option list \<times> nat) option \<times> 'w native) option" where
  "valuesLoop je capacity first hdrValues st =
     (case st of (arr, hdrPos, s) \<Rightarrow>
      let valuePtr = hdrValues + 8;
          (str, s1) = headerToString je capacity (cstring (mem s) valuePtr) s
      in if \<not> string_ok je hdrPos then Some (None, throwExn JvmException s1)
         else
           let (arr', s2) = setElement arr (int hdrPos) str s1;
               next = refs (mem s2) hdrValues
           in if next \<noteq> first then valuesLoop je capacity first next (arr', hdrPos + 1, s2)
              else Some (Some (arr', hdrPos + 1), s2))"

declare valuesLoop.simps [code]

fun responseChain :: "jvm_env \<Rightarrow> nat \<Rightarrow> (addr, addr) Entry list \<Rightarrow> jstring option list \<times> nat \<times> 'w native
    \<Rightarrow> ((jstring option list \<times> nat) option \<times> 'w native) option" where
  "responseChain je capacity [] (arr, hdrPos, s) = Some (Some (arr, hdrPos), s)"
| "responseChain je capacity (entry # next) (arr, hdrPos, s) =
     (let (str, s1) = headerToString je capacity (cstring (mem s) (key entry)) s
      in if \<not> string_ok je hdrPos then Some (None, throwExn JvmException s1)
         else
           let (arr', s2) = setElement arr (int hdrPos) str s1;
               hdrValues = refs (mem s2) (evalue entry)
           in case valuesLoop je capacity hdrValues hdrValues (arr', hdrPos + 1, s2) of
                None \<Rightarrow> None
              | Some (None, s3) \<Rightarrow> Some (None, s3)
              | Some (Some (arr'', pos''), s3) \<Rightarrow>
                  responseChain je capacity next (arr'', pos'' + 1, s3))"

fun responseBuckets :: "jvm_env \<Rightarrow> nat \<Rightarrow> (addr, addr) Entry list list
    \<Rightarrow> jstring option list \<times> nat \<times> 'w native
    \<Rightarrow> ((jstring option list \<times> nat) option \<times> 'w native) option" where
  "responseBuckets je capacity [] (arr, hdrPos, s) = Some (Some (arr, hdrPos), s)"
| "responseBuckets je capacity (b # bs) st =
     (case responseChain je capacity b st of
        None \<Rightarrow> None
      | Some (None, s1) \<Rightarrow> Some (None, s1)
      | Some (Some (arr, pos), s1) \<Rightarrow> responseBuckets je capacity bs (arr, pos, s1))"

text \<open>\<open>size_t\<close> arithmetic, then the conversion to \<open>jsize\<close>.\<close>

definition arrayCapacity :: "'w native \<Rightarrow> int" where
  "arrayCapacity s =
     (let sz = mapSize (headers s);
          cap = sz * 3 + (of_int (int (unat (headerPairCount s)) - 1) - sz) - 1
      in sint (ucast cap :: u32))"

text \<open>The outer \<open>None\<close> is non-termination, the inner one a NULL result.\<close>

definition getResponseHeaders :: "jvm_env \<Rightarrow> 'w native \<Rightarrow> (jstring option list option \<times> 'w native) option" where
  "getResponseHeaders je s =
     (if mapSize (headers s) = 0 then Some (None, s)
      else if unat (maxHeaderLength s) > MAX_LOCAL_ALLOC \<and> \<not> temp_ok je then Some (None, oomThrow s)
      else if arrayCapacity s < 0 \<or> \<not> array_ok je then Some (None, throwExn JvmException s)
      else
        let strArray = replicate (nat (arrayCapacity s)) None in
        if unat (headerPairCount s) > 5 \<and> \<not> frame_ok je then Some (Some strArray, throwExn JvmException s)
        else
          (case responseBuckets je (unat (maxHeaderLength s)) (buckets (headers s)) (strArray, 0, s) of
             None \<Rightarrow> None
           | Some (None, s1) \<Rightarrow> Some (None, s1)
           | Some (Some (arr, pos), s1) \<Rightarrow> Some (Some arr, s1)))"

text \<open>A header by position: value for \<open>n > 0\<close>, name for \<open>n \<le> 0\<close>.\<close>

definition getSpecialHeader :: "int \<Rightarrow> 'w native \<Rightarrow> addr option" where
  "getSpecialHeader n s =
     (if n \<ge> int (unat (headerPairCount s)) then None
      else if n > 0 then Some (headerPairs s (nat (2 * n)) + 8)
      else Some (headerPairs s (nat (- n * 2 + 1))))"

text \<open>\<open>stk\<close> is where \<open>alloca\<close> puts the local copy of the key.\<close>

definition getHeader :: "addr \<Rightarrow> jstring option \<Rightarrow> int \<Rightarrow> 'w native \<Rightarrow> addr option \<times> 'w native" where
  "getHeader stk k l s =
     (if headerPairCount s = 0 then (None, s)
      else case k of
             Some strKey \<Rightarrow>
               (let localKey = map ucast (take (nat l) strKey) @ [0];
                    m = (mem s)\<lparr>chars := writeBytes (chars (mem s)) stk localKey\<rparr>;
                    found = hashmapGet m (headers s) stk
                in (if found = 0 then None else Some (found + 8), s\<lparr>mem := m\<rparr>))
           | None \<Rightarrow> (getSpecialHeader l s, s))"

text \<open>\<open>strtoll\<close> in base 10: the value, clamped to 64 bits, and the number of bytes consumed.\<close>

definition isSpace :: "u8 \<Rightarrow> bool" where
  "isSpace b \<longleftrightarrow> b = 0x20 \<or> 0x09 \<le> b \<and> b \<le> 0x0d"

definition isDigit :: "u8 \<Rightarrow> bool" where
  "isDigit b \<longleftrightarrow> 0x30 \<le> b \<and> b \<le> 0x39"

definition digitsValue :: "u8 list \<Rightarrow> int" where
  "digitsValue ds = foldl (\<lambda>v d. v * 10 + (int (unat d) - 0x30)) 0 ds"

definition clamp64 :: "int \<Rightarrow> int" where
  "clamp64 v = max (- (2 ^ 63)) (min (2 ^ 63 - 1) v)"

definition strtoll :: "u8 list \<Rightarrow> int \<times> nat" where
  "strtoll s =
     (let r = dropWhile isSpace s;
          signed = (r \<noteq> [] \<and> (hd r = 0x2d \<or> hd r = 0x2b));
          t = if signed then tl r else r;
          ds = takeWhile isDigit t
      in if ds = [] then (0, 0)
         else (clamp64 (if r \<noteq> [] \<and> hd r = 0x2d then - digitsValue ds else digitsValue ds),
               length s - length t + length ds))"

definition Curl_intHeader :: "addr \<Rightarrow> int \<Rightarrow> int \<Rightarrow> jstring option \<Rightarrow> int \<Rightarrow> 'w native \<Rightarrow> int \<times> 'w native" where
  "Curl_intHeader stk responseCode defaultValue k l s0 =
     (case ACQUIRE s0 of (acquired, s) \<Rightarrow>
      if \<not> acquired then (-1, throwThreadingException s)
      else if k = None then (if responseCode \<noteq> 0 then responseCode else -1, RELEASE s)
      else case getHeader stk k l s of
             (None, s1) \<Rightarrow> (defaultValue, RELEASE s1)
           | (Some str, s1) \<Rightarrow>
               (let bytes = cstring (mem s1) str;
                    (v, used) = strtoll bytes
                in if used \<noteq> length bytes then (defaultValue, RELEASE s1) else (v, RELEASE s1)))"

definition Curl_header :: "addr \<Rightarrow> jvm_env \<Rightarrow> jstring option \<Rightarrow> int \<Rightarrow> 'w native \<Rightarrow> jstring option \<times> 'w native" where
  "Curl_header stk je k l s0 =
     (case ACQUIRE s0 of (acquired, s) \<Rightarrow>
      if \<not> acquired then (None, throwThreadingException s)
      else case getHeader stk k l s of
             (None, s1) \<Rightarrow> (None, RELEASE s1)
           | (Some str, s1) \<Rightarrow>
               (let resLen = strlen (chars (mem s1)) str in
                if resLen \<le> MAX_LOCAL_ALLOC
                then (case headerToString je resLen (cstring (mem s1) str) s1 of
                        (r, s2) \<Rightarrow>
                          if string_ok je 0 then (Some r, RELEASE s2)
                          else (None, RELEASE (throwExn JvmException s2)))
                else if string_ok je 0 then (Some (decodeUtf je (cstring (mem s1) str)), RELEASE s1)
                else (None, RELEASE (throwExn JvmException s1))))"

end
