(* ===== verification/RequestHeaders.thy ===== *)
theory RequestHeaders
  imports HeaderStore
begin

text \<open>
  The request headers: a \<open>curl_slist\<close> of lines \<open>Name:value\<close>, \<open>Name;\<close> for an empty value and
  \<open>Name:\<close> for a header that curl shall not send.  \<open>curl_slist_append\<close> is curl's; it is the
  component \<open>slist_append\<close> of \<open>req_env\<close>, with \<open>None\<close> for a failed allocation.  The list is
  the list of its strings; the code's pointer pair \<open>lastHdr\<close>/\<open>nextHdr\<close> splits it into the
  entries already passed and the rest.
\<close>

record req_env =
  buffer_ok :: bool
  entry_ok :: bool
  slist_append :: "u8 list list \<Rightarrow> u8 list \<Rightarrow> u8 list list option"

text \<open>The string that starts a buffer: up to its first NUL.\<close>

definition cstr :: "u8 list \<Rightarrow> u8 list" where
  "cstr buf = takeWhile (\<lambda>b. b \<noteq> 0) buf"

text \<open>Byte \<open>i\<close> of a terminated string.\<close>

definition cat :: "u8 list \<Rightarrow> nat \<Rightarrow> u8" where
  "cat s i = (if i < length s then s ! i else 0)"

text \<open>\<open>strncasecmp(a, b, n) == 0\<close>; \<open>tolower\<close> of the C locale is \<open>TOLOWER\<close>.\<close>

function strncaseeq :: "u8 list \<Rightarrow> u8 list \<Rightarrow> nat \<Rightarrow> nat \<Rightarrow> bool" where
  "strncaseeq a b n i =
     (if i \<ge> n then True
      else if TOLOWER (cat a i) \<noteq> TOLOWER (cat b i) then False
      else if cat a i = 0 then True
      else strncaseeq a b n (Suc i))"
  by pat_completeness auto
termination
  by (relation "measure (\<lambda>(a, b, n, i). n - i)") auto

declare strncaseeq.simps [simp del]

definition jbytes :: "jstring \<Rightarrow> int \<Rightarrow> u8 list" where
  "jbytes str len = map ucast (take (nat len) str)"

text \<open>A local buffer of \<open>size\<close> bytes into which \<open>used\<close> bytes are written from the start.\<close>

definition noteWrites :: "int \<Rightarrow> int \<Rightarrow> 'w native \<Rightarrow> 'w native" where
  "noteWrites sz used s = (if used \<le> sz then s else logFault (OverflowingWrite (nat (used - sz))) s)"

text \<open>
  The loop of \<open>setHeader\<close>.  \<open>passed\<close> are the entries up to and including \<open>lastHdr\<close>, the
  next argument those from \<open>nextHdr\<close> on, \<open>newHeader\<close> the place of the entry to overwrite.
\<close>

fun setHeaderLoop :: "(u8 list \<Rightarrow> bool) \<Rightarrow> bool \<Rightarrow> u8 list list \<Rightarrow> u8 list list \<Rightarrow> u16 \<Rightarrow> nat option
    \<Rightarrow> u8 list list \<times> u16 \<times> nat option" where
  "setHeaderLoop matching noValue passed [] cnt newHeader = (passed, cnt, newHeader)"
| "setHeaderLoop matching noValue passed (nextHdr # rest) cnt newHeader =
     (if matching nextHdr then
        (if noValue then
           (if passed \<noteq> [] then setHeaderLoop matching noValue passed rest (cnt - 1) newHeader
            else ([], cnt, newHeader))
         else setHeaderLoop matching noValue (passed @ [nextHdr]) rest cnt (Some (length passed)))
      else setHeaderLoop matching noValue (passed @ [nextHdr]) rest cnt newHeader)"

definition Curl_setHeader :: "req_env \<Rightarrow> jstring \<Rightarrow> jstring option \<Rightarrow> int \<Rightarrow> int \<Rightarrow> 'w native \<Rightarrow> 'w native" where
  "Curl_setHeader re k v kLen valLen s0 =
     (case ACQUIRE s0 of (acquired, s) \<Rightarrow>
      if \<not> acquired then throwThreadingException s
      else if \<not> buffer_ok re then RELEASE (oomThrow s)
      else
        let bufferSize = kLen + valLen + 2;
            name = jbytes k kLen;
            sep = (if valLen = 0 then 0x3b else 0x3a);
            (hdrs, cnt, newHeader) =
              setHeaderLoop (\<lambda>d. strncaseeq (name @ [sep]) d (nat kLen) 0) (v = None) []
                (outHeaders s) (outHeaderCount s) None;
            s1 = s\<lparr>outHeaders := hdrs, outHeaderCount := cnt\<rparr>
        in if valLen < 0
           then RELEASE (noteWrites bufferSize (kLen + 2)
                  (s1\<lparr>outHeaders := (case slist_append re hdrs (cstr (name @ [sep])) of None \<Rightarrow> [] | Some l \<Rightarrow> l)\<rparr>))
           else if newHeader = None \<and> \<not> entry_ok re then logFault NullAccess s1
           else if v = None \<and> valLen > 0 then logFault NullAccess s1
           else
             let line = name @ [sep] @ (if valLen \<noteq> 0 then jbytes (case v of None \<Rightarrow> [] | Some x \<Rightarrow> x) valLen else []);
                 s2 = (case newHeader of
                         Some i \<Rightarrow> s1\<lparr>outHeaders := hdrs[i := line]\<rparr>
                       | None \<Rightarrow> s1\<lparr>outHeaders := hdrs @ [line], outHeaderCount := cnt + 1\<rparr>)
             in RELEASE (noteWrites bufferSize (kLen + valLen + 2) s2))"

definition Curl_addHeader :: "req_env \<Rightarrow> jstring \<Rightarrow> jstring \<Rightarrow> int \<Rightarrow> int \<Rightarrow> 'w native \<Rightarrow> 'w native" where
  "Curl_addHeader re k v kLen valLen s0 =
     (case ACQUIRE s0 of (acquired, s) \<Rightarrow>
      if \<not> acquired then throwThreadingException s
      else if \<not> kLen + valLen + 1 < int MAX_LOCAL_ALLOC \<and> \<not> buffer_ok re then RELEASE (oomThrow s)
      else
        let line = jbytes k kLen @ [if valLen = 0 then 0x3b else 0x3a] @ jbytes v valLen
        in RELEASE (noteWrites (kLen + valLen + 2) (kLen + valLen + 2)
             (s\<lparr>outHeaders := (case slist_append re (outHeaders s) (cstr line) of None \<Rightarrow> [] | Some l \<Rightarrow> l),
                outHeaderCount := outHeaderCount s + 1\<rparr>)))"

text \<open>The \<open>do ... while\<close> of \<open>outHeader\<close>: the value part of the first entry with that name.\<close>

fun outHeaderLoop :: "u8 list \<Rightarrow> nat \<Rightarrow> u8 list list \<Rightarrow> u8 list option" where
  "outHeaderLoop name kLen [] = None"
| "outHeaderLoop name kLen (data # next) =
     (if strncaseeq name data kLen 0 \<and> (cat data kLen = 0x3a \<or> cat data kLen = 0x3b)
      then Some (cstr (drop (kLen + 1) data))
      else outHeaderLoop name kLen next)"

definition Curl_outHeader :: "req_env \<Rightarrow> jvm_env \<Rightarrow> jstring \<Rightarrow> int \<Rightarrow> 'w native \<Rightarrow> jstring option \<times> 'w native" where
  "Curl_outHeader re je k kLen s0 =
     (case ACQUIRE s0 of (acquired, s) \<Rightarrow>
      if \<not> acquired then (None, throwThreadingException s)
      else if outHeaderCount s = 0 then (None, RELEASE s)
      else if kLen > int MAX_LOCAL_ALLOC \<and> \<not> buffer_ok re then (None, RELEASE (logFault NullAccess s))
      else if outHeaders s = [] then (None, RELEASE (logFault NullAccess s))
      else case outHeaderLoop (jbytes k kLen) (nat kLen) (outHeaders s) of
             None \<Rightarrow> (None, RELEASE s)
           | Some str \<Rightarrow>
               if string_ok je 0 then (Some (decodeUtf je str), RELEASE s)
               else (None, RELEASE (throwExn JvmException s)))"

definition Curl_clearHeaders :: "'w native \<Rightarrow> 'w native" where
  "Curl_clearHeaders s0 =
     (case ACQUIRE s0 of (acquired, s) \<Rightarrow>
      if \<not> acquired then throwThreadingException s
      else RELEASE (s\<lparr>outHeaders := [], outHeaderCount := 0\<rparr>))"

text \<open>\<open>strchr(data, ':')\<close> as an offset.\<close>

definition colonAt :: "u8 list \<Rightarrow> nat option" where
  "colonAt data = (let n = length (takeWhile (\<lambda>b. b \<noteq> 0x3a) data) in if n < length data then Some n else None)"

text \<open>
  One entry of \<open>getRequestHeaders\<close>: \<open>keyLen\<close>, or \<open>None\<close> for the stub that disables a
  default header.
\<close>

definition requestKeyLen :: "u8 list \<Rightarrow> nat option" where
  "requestKeyLen entry =
     (case colonAt entry of
        Some e \<Rightarrow> if cat entry (e + 1) = 0 then None else Some e
      | None \<Rightarrow> Some (length entry - 1))"

text \<open>
  The bytes of \<open>tempBuffer\<close> after the \<open>realloc\<close> for an entry; none when it answered null, and
  every character written from then on is out of bounds.
\<close>

definition requestCapacity :: "jvm_env \<Rightarrow> nat \<Rightarrow> nat \<Rightarrow> nat \<Rightarrow> nat" where
  "requestCapacity je cap keyLen valueLen =
     (let maxLen = 2 * (if keyLen > valueLen then keyLen else valueLen)
      in if maxLen \<ge> 4 * 1024 then if grow_ok je then maxLen else 0 else cap)"

text \<open>
  Converting a string and storing it at \<open>pos\<close>; \<open>None\<close> for the array is the \<open>goto cleanup\<close>
  after a failed \<open>NewString\<close>.
\<close>

definition putString :: "jvm_env \<Rightarrow> nat \<Rightarrow> u8 list \<Rightarrow> nat \<Rightarrow> jstring option list \<Rightarrow> 'w native
    \<Rightarrow> jstring option list option \<times> 'w native" where
  "putString je capacity str pos arr s =
     (case headerToString je capacity str s of (x, s1) \<Rightarrow>
      if \<not> string_ok je pos then (None, throwExn JvmException s1)
      else case setElement arr (int pos) x s1 of (arr', s2) \<Rightarrow> (Some arr', s2))"

text \<open>
  The loop of \<open>getRequestHeaders\<close>; \<open>i\<close> counts array slots for every entry it looks at,
  \<open>n\<close> is \<open>actualCount\<close>, the pairs it stored, \<open>cap\<close> is the size of \<open>tempBuffer\<close> in bytes.
  An empty entry has no length \<open>entryLen - 1\<close>; no operation stores one.
\<close>

fun requestLoop :: "jvm_env \<Rightarrow> int \<Rightarrow> int \<Rightarrow> nat \<Rightarrow> u8 list list \<Rightarrow> jstring option list \<Rightarrow> nat \<Rightarrow> 'w native
    \<Rightarrow> jstring option list option \<times> 'w native" where
  "requestLoop je arrayCap i cap [] arr n s = (Some arr, s)"
| "requestLoop je arrayCap i cap (data # next) arr n s =
     (if i \<ge> arrayCap then (Some arr, s)
      else if cstr data = [] then (None, logFault NullAccess s)
      else case requestKeyLen (cstr data) of
        None \<Rightarrow> requestLoop je arrayCap (i + 2) cap next arr n s
      | Some keyLen \<Rightarrow>
         (let valueLen = length (cstr data) - keyLen - 1;
              cap' = requestCapacity je cap keyLen valueLen
          in case putString je (cap' div 2) (take keyLen data) (n * 2) arr s of
               (None, s1) \<Rightarrow> (None, s1)
             | (Some arr1, s1) \<Rightarrow>
                 (case putString je (cap' div 2) (take valueLen (drop (keyLen + 1) data)) (n * 2 + 1) arr1 s1 of
                    (None, s2) \<Rightarrow> (None, s2)
                  | (Some arr2, s2) \<Rightarrow> requestLoop je arrayCap (i + 2) cap' next arr2 (n + 1) s2)))"

definition getRequestHeaders :: "jvm_env \<Rightarrow> 'w native \<Rightarrow> jstring option list option \<times> 'w native" where
  "getRequestHeaders je s =
     (let arrayCap = int (unat (outHeaderCount s)) * 2 in
      if outHeaders s = [] \<or> arrayCap \<le> 0 then (None, s)
      else if \<not> temp_ok je then (None, oomThrow s)
      else if \<not> array_ok je then (None, throwExn JvmException s)
      else
        let strArray = replicate (nat arrayCap) None in
        if unat (outHeaderCount s) > 5 \<and> \<not> frame_ok je then (Some strArray, throwExn JvmException s)
        else requestLoop je arrayCap 0 (4 * 1024) (outHeaders s) strArray 0 s)"

definition Curl_getHeaders :: "jvm_env \<Rightarrow> bool \<Rightarrow> 'w native \<Rightarrow> (jstring option list option \<times> 'w native) option" where
  "Curl_getHeaders je response s0 =
     (case ACQUIRE s0 of (acquired, s) \<Rightarrow>
      if \<not> acquired then Some (None, throwThreadingException s)
      else map_option (\<lambda>(arr, s1). (arr, RELEASE s1))
             (if response then getResponseHeaders je s else Some (getRequestHeaders je s)))"

end
