(* ===== verification/ResponseHeaders.thy ===== *)
theory ResponseHeaders
  imports HeaderStore
begin

text \<open>
  The store of response headers as a list.  \<open>storeInv N s st hs\<close> says that the native state
  \<open>s\<close> holds the status line \<open>st\<close> and the headers \<open>hs\<close>, in order of arrival: one live block
  per header with value and name as terminated strings, the ring through the \<open>ref\<close> fields of
  the headers of each name, an entry of the map per name with the first key and the last block,
  and the pair array.
\<close>

section \<open>Trimming\<close>

definition isTrailing :: "u8 \<Rightarrow> bool" where
  "isTrailing b \<longleftrightarrow> b = 0 \<or> b = 0x20 \<or> b = 0x0d \<or> b = 0x0a"

definition trimEndBytes :: "u8 list \<Rightarrow> u8 list" where
  "trimEndBytes s = rev (dropWhile isTrailing (rev s))"

definition trimBytes :: "u8 list \<Rightarrow> u8 list" where
  "trimBytes s = trimEndBytes (dropWhile (\<lambda>b. b = 0x20) s)"

lemma wsp_trim_end_bytes: "memBytes c p (wsp_trim_end c p n) = trimEndBytes (memBytes c p n)"
  by (induction n) (auto simp: memBytes_Suc trimEndBytes_def isTrailing_def Let_def memBytes_def)

lemma wsp_trim_end_le: "wsp_trim_end c p n \<le> n"
  by (induction n) (auto simp: Let_def)

lemma wsp_trim_start_bytes:
  "wsp_trim_start c p n = (q, k) \<Longrightarrow>
   memBytes c q k = dropWhile (\<lambda>b. b = 0x20) (memBytes c p n) \<and> q + int k = p + int n \<and> k \<le> n"
  by (induction n arbitrary: p) (fastforce simp: memBytes_Cons memBytes_0 split: if_splits)+

lemma wsp_trim_bytes:
  assumes "wsp_trim c p n = (q, k)"
  shows "memBytes c q k = trimBytes (memBytes c p n)" "p \<le> q" "q + int k \<le> p + int n"
proof -
  obtain k1 where s: "wsp_trim_start c p n = (q, k1)" "k = wsp_trim_end c q k1"
    using assms by (auto simp: wsp_trim_def split: prod.splits)
  show "memBytes c q k = trimBytes (memBytes c p n)"
    using wsp_trim_start_bytes [OF s(1)] by (simp add: s(2) wsp_trim_end_bytes trimBytes_def)
  show "p \<le> q" "q + int k \<le> p + int n"
    using wsp_trim_start_bytes [OF s(1)] wsp_trim_end_le [of c q k1] by (auto simp: s(2))
qed

definition outside :: "addr \<Rightarrow> nat \<Rightarrow> addr \<Rightarrow> nat \<Rightarrow> bool" where
  "outside p n q k \<longleftrightarrow> q + int k \<le> p \<or> p + int n \<le> q"

lemma fillPair_result:
  assumes name: "memBytes (chars m) buffer keyLen = nm" "0 \<notin> set nm"
    and val: "memBytes (chars m) valStart valueLen = v" "0 \<notin> set v"
    and src: "outside p (keyLen + 8 + valueLen + 2) buffer keyLen"
    and eq: "fillPair p buffer keyLen valStart valueLen m = (k, m')"
  shows "k = p + 8 + int valueLen + 1"
    "isCstr (chars m') (p + 8) v" "isCstr (chars m') k nm"
    "a < p \<or> p + int (keyLen + 8 + valueLen + 2) \<le> a \<Longrightarrow> chars m' a = chars m a"
    "refs m' = refs m" "faults m' = faults m"
    "blocks m' = (blocks m)(p := Some (keyLen + 8 + valueLen + 2))"
proof -
  have lens: "length nm = keyLen" "length v = valueLen" using name(1) val(1) by auto
  let ?c1 = "(writeBytes (chars m) (p + 8) v)(p + 8 + int valueLen := 0)"
  let ?k = "p + 8 + int valueLen + 1"
  have "memBytes ?c1 buffer keyLen = memBytes (chars m) buffer keyLen"
    using src lens by (intro memBytes_cong) (auto simp: outside_def writeBytes_def)
  then have b: "memBytes ?c1 buffer keyLen = nm" using name by simp
  have "strncpy (chars m) (p + 8) valStart valueLen = writeBytes (chars m) (p + 8) v"
    using strncpy_bytes [of "chars m" valStart valueLen "p + 8"] val by simp
  moreover have "strncpy ?c1 ?k buffer keyLen = writeBytes ?c1 ?k nm"
    using strncpy_bytes [of ?c1 buffer keyLen ?k] b name by simp
  ultimately have m': "k = ?k" "m' = m\<lparr>chars := (writeBytes ?c1 ?k nm)(?k + int keyLen := 0),
      blocks := (blocks m)(p := Some (keyLen + 8 + valueLen + 2))\<rparr>"
    using eq by (auto simp: fillPair_def Let_def)
  show "k = p + 8 + int valueLen + 1" "refs m' = refs m" "faults m' = faults m"
    "blocks m' = (blocks m)(p := Some (keyLen + 8 + valueLen + 2))"
    using m' by auto
  show "isCstr (chars m') k nm" using isCstr_write [OF name(2), of ?c1 ?k] lens m' by simp
  show "isCstr (chars m') (p + 8) v"
    by (rule isCstr_frame [OF isCstr_write [OF val(2), of "chars m" "p + 8"]])
       (use lens m' in \<open>auto simp: writeBytes_def\<close>)
  show "chars m' a = chars m a" if "a < p \<or> p + int (keyLen + 8 + valueLen + 2) \<le> a"
    using that m' lens by (auto simp: writeBytes_def)
qed
section \<open>Invariant\<close>

record stored_header =
  sblock :: addr
  sname :: "u8 list"
  svalue :: "u8 list"

definition blockSize :: "stored_header \<Rightarrow> nat" where
  "blockSize h = length (sname h) + 8 + length (svalue h) + 2"

definition keyPos :: "stored_header \<Rightarrow> addr" where
  "keyPos h = sblock h + 8 + int (length (svalue h)) + 1"

definition sameName :: "u8 list \<Rightarrow> stored_header list \<Rightarrow> stored_header list" where
  "sameName n hs = filter (\<lambda>h. lower (sname h) = n) hs"

definition blockOk :: "cmem \<Rightarrow> stored_header \<Rightarrow> bool" where
  "blockOk m h \<longleftrightarrow>
     sblock h > 0 \<and> blocks m (sblock h) = Some (blockSize h) \<and>
     isCstr (chars m) (sblock h + 8) (svalue h) \<and> isCstr (chars m) (keyPos h) (sname h)"

definition ringOk :: "cmem \<Rightarrow> addr list \<Rightarrow> bool" where
  "ringOk m ps \<longleftrightarrow> (\<forall>j < length ps. refs m (ps ! j) = ps ! (Suc j mod length ps))"

definition entryOk :: "cmem \<Rightarrow> stored_header list \<Rightarrow> (addr, addr) Entry \<Rightarrow> bool" where
  "entryOk m hs e \<longleftrightarrow>
     (let same = sameName (nameIn m (key e)) hs
      in same \<noteq> [] \<and> key e = keyPos (hd same) \<and> evalue e = sblock (last same))"

definition entriesMatch :: "cmem \<Rightarrow> (addr, addr) Entry list \<Rightarrow> stored_header list \<Rightarrow> bool" where
  "entriesMatch m es hs \<longleftrightarrow>
     (\<forall>e \<in> set es. entryOk m hs e) \<and>
     (\<forall>h \<in> set hs. \<exists>e \<in> set es. nameIn m (key e) = lower (sname h))"

definition slotOk :: "'w native \<Rightarrow> stored_header list \<Rightarrow> nat \<Rightarrow> bool" where
  "slotOk s hs i \<longleftrightarrow>
     headerPairs s (2 * Suc i) = sblock (hs ! i) \<and>
     headerPairs s (2 * Suc i + 1) = keyPos (hd (sameName (lower (sname (hs ! i))) hs))"

definition statusOk :: "'w native \<Rightarrow> stored_header \<Rightarrow> bool" where
  "statusOk s st \<longleftrightarrow>
     blockOk (mem s) st \<and> headerPairs s 0 = sblock st \<and> headerPairs s 1 = keyPos st"

definition storeInv :: "u8 list set \<Rightarrow> 'w native \<Rightarrow> stored_header \<Rightarrow> stored_header list \<Rightarrow> bool" where
  "storeInv N s st hs \<longleftrightarrow>
     statusOk s st \<and>
     hashmapFor (keysIn N (mem s)) hdrHash hdrEquals (mem s) (headers s) \<and>
     (\<forall>h \<in> set hs. blockOk (mem s) h \<and> lower (sname h) \<in> N) \<and>
     distinct (map sblock (st # hs)) \<and>
     (\<forall>n. ringOk (mem s) (map sblock (sameName n hs))) \<and>
     entriesMatch (mem s) (entries (headers s)) hs \<and>
     unat (headerPairCount s) = Suc (length hs) \<and>
     (\<forall>i < length hs. slotOk s hs i) \<and>
     (\<forall>h \<in> set hs. length (sname h) \<le> unat (maxHeaderLength s) \<and>
                    length (svalue h) \<le> unat (maxHeaderLength s))"

lemma sameName_append: "sameName n (hs @ [h]) = sameName n hs @ (if lower (sname h) = n then [h] else [])"
  by (simp add: sameName_def)

lemma sameName_set: "h \<in> set (sameName n hs) \<longleftrightarrow> h \<in> set hs \<and> lower (sname h) = n"
  by (auto simp: sameName_def)

lemma sameName_empty: "sameName n hs = [] \<longleftrightarrow> n \<notin> set (map (\<lambda>h. lower (sname h)) hs)"
  by (auto simp: sameName_def filter_empty_conv)

section \<open>Frame lemmas\<close>

lemma blockOk_frame:
  assumes "blockOk m h" "blocks m' (sblock h) = blocks m (sblock h)"
    and "\<And>a. sblock h \<le> a \<Longrightarrow> a < sblock h + int (blockSize h) \<Longrightarrow> chars m' a = chars m a"
  shows "blockOk m' h"
proof -
  have "isCstr (chars m') (sblock h + 8) (svalue h)"
    by (rule isCstr_frame [of "chars m"]) (use assms in \<open>auto simp: blockOk_def blockSize_def\<close>)
  moreover have "isCstr (chars m') (keyPos h) (sname h)"
    by (rule isCstr_frame [of "chars m"]) (use assms in \<open>auto simp: blockOk_def blockSize_def keyPos_def\<close>)
  ultimately show ?thesis using assms by (simp add: blockOk_def)
qed

lemma nameIn_block: "blockOk m h \<Longrightarrow> nameIn m (keyPos h) = lower (sname h)"
  by (simp add: blockOk_def nameIn_cstr)

lemma keysIn_block: "blockOk m h \<Longrightarrow> lower (sname h) \<in> N \<Longrightarrow> keyPos h \<in> keysIn N m"
  by (auto simp: blockOk_def keysIn_def)

lemma hdrHash_block: "blockOk m h \<Longrightarrow> hdrHash m (keyPos h) = nameHash (sname h)"
  by (simp add: blockOk_def hdrHash_def hashCalc_cstr)

lemma entryOk_header:
  assumes "entryOk m hs e"
  obtains h where "h \<in> set hs" "key e = keyPos h" "nameIn m (key e) = lower (sname h)"
proof -
  let ?same = "sameName (nameIn m (key e)) hs"
  have "hd ?same \<in> set ?same" using assms by (auto simp: entryOk_def Let_def)
  then show thesis using that [of "hd ?same"] assms by (auto simp: sameName_set entryOk_def Let_def)
qed

lemma entriesMatch_memory:
  assumes "entriesMatch m es hs" and blk: "\<forall>h \<in> set hs. blockOk m h \<and> blockOk m' h"
  shows "entriesMatch m' es hs" "e \<in> set es \<Longrightarrow> nameIn m' (key e) = nameIn m (key e)"
proof -
  have same: "nameIn m' (key e) = nameIn m (key e)" if "e \<in> set es" for e
  proof -
    have "entryOk m hs e" using assms(1) that by (simp add: entriesMatch_def)
    then obtain h where "h \<in> set hs" "key e = keyPos h" by (rule entryOk_header)
    then show ?thesis using blk by (simp add: nameIn_block)
  qed
  then show "e \<in> set es \<Longrightarrow> nameIn m' (key e) = nameIn m (key e)" by blast
  show "entriesMatch m' es hs" using assms(1) same by (auto simp: entriesMatch_def entryOk_def)
qed

context header_names
begin

lemma for_memory:
  assumes hm: "hashmapFor (keysIn N m) hdrHash hdrEquals m hm"
    and es: "entriesMatch m (entries hm) hs"
    and blk: "\<forall>h \<in> set hs. blockOk m h \<and> blockOk m' h \<and> lower (sname h) \<in> N"
  shows "hashmapFor (keysIn N m') hdrHash hdrEquals m' hm"
proof -
  let ?es = "entries hm"
  have key: "key e \<in> keysIn N m \<and> key e \<in> keysIn N m' \<and> hdrHash m' (key e) = hdrHash m (key e)" if "e \<in> set ?es" for e
  proof -
    have "entryOk m hs e" using es that by (simp add: entriesMatch_def)
    then obtain h where "h \<in> set hs" "key e = keyPos h" by (rule entryOk_header)
    then show ?thesis using blk by (simp add: keysIn_block hdrHash_block)
  qed
  have ok: "entriesOk (keysIn N m) hdrHash hdrEquals m ?es" using hdr.forD(4) [OF hm] .
  have "entriesOk (keysIn N m') hdrHash hdrEquals m' ?es"
    unfolding entriesOk_def
  proof (intro conjI ballI impI)
    fix e assume e: "e \<in> set ?es"
    show "key e \<in> keysIn N m'" using key [OF e] by simp
    show "ehash e = mixHash (hdrHash m' (key e))" using ok key [OF e] e by (simp add: entriesOk_def)
  next
    show "distinct ?es" using ok by (simp add: entriesOk_def)
  next
    fix e e' assume e: "e \<in> set ?es" "e' \<in> set ?es"
      and eqv: "keyEquiv hdrHash hdrEquals m' (key e) (key e')"
    have "nameIn m (key e) = nameIn m (key e')"
      using eqv keyEquiv_names [of "key e" m' "key e'"] key [OF e(1)] key [OF e(2)]
        entriesMatch_memory(2) [OF es, of m'] blk e by auto
    then have "keyEquiv hdrHash hdrEquals m (key e) (key e')"
      using keyEquiv_names [of "key e" m "key e'"] key [OF e(1)] key [OF e(2)] by simp
    then show "e = e'" using ok e by (simp add: entriesOk_def)
  qed
  then show ?thesis using hm by (simp add: hashmapFor_def hashmapInv_def)
qed

end
section \<open>Rings and map entries\<close>

lemma ringOk_cong: "(\<And>p. p \<in> set ps \<Longrightarrow> refs m' p = refs m p) \<Longrightarrow> ringOk m' ps = ringOk m ps"
  by (simp add: ringOk_def)

lemma ringOk_last: "ringOk m ps \<Longrightarrow> ps \<noteq> [] \<Longrightarrow> refs m (last ps) = hd ps"
  by (auto simp: ringOk_def last_conv_nth hd_conv_nth dest: spec [of _ "length ps - 1"])

lemma ringOk_append:
  assumes "ringOk m ps" "ps \<noteq> []" "distinct ps" "p \<notin> set ps"
    and m': "refs m' = (refs m)(p := refs m (last ps), last ps := p)"
  shows "ringOk m' (ps @ [p])"
  unfolding ringOk_def
proof (intro allI impI)
  fix j assume j: "j < length (ps @ [p])"
  have last: "last ps = ps ! (length ps - 1)" by (rule last_conv_nth [OF assms(2)])
  consider "j = length ps" | "j = length ps - 1" "j < length ps" | "j < length ps - 1" using j by fastforce
  then show "refs m' ((ps @ [p]) ! j) = (ps @ [p]) ! (Suc j mod length (ps @ [p]))"
  proof cases
    case 1
    have "last ps \<noteq> p" using assms(2,4) by auto
    then show ?thesis using 1 m' ringOk_last [OF assms(1,2)] assms(2) by (simp add: nth_append hd_conv_nth)
  next
    case 2
    then show ?thesis using m' assms(2) last by (auto simp: nth_append)
  next
    case 3
    have "ps ! j \<noteq> last ps" using 3 last assms(3) by (simp add: nth_eq_iff_index_eq)
    moreover have "ps ! j \<noteq> p" using 3 assms(4) by (metis diff_le_self less_le_trans nth_mem)
    ultimately show ?thesis using 3 assms(1) m' by (auto simp: nth_append ringOk_def)
  qed
qed

lemma sameName_blocks: "set (map sblock (sameName n hs)) \<subseteq> sblock ` set hs"
  by (auto simp: sameName_def)

lemma sameName_disjoint:
  assumes "distinct (map sblock hs)" "n \<noteq> n'"
  shows "set (map sblock (sameName n hs)) \<inter> set (map sblock (sameName n' hs)) = {}"
  using assms by (auto simp: sameName_def distinct_map inj_on_def)

lemma sameName_distinct: "distinct (map sblock hs) \<Longrightarrow> distinct (map sblock (sameName n hs))"
  by (simp add: sameName_def distinct_map_filter)

text \<open>What writing the \<open>ref\<close> fields does to all rings when \<open>h\<close> arrives.\<close>

lemma rings_append:
  assumes rings: "\<forall>n. ringOk m (map sblock (sameName n hs))"
    and dist: "distinct (map sblock (hs @ [h]))"
    and m': "refs m' = (let same = sameName (lower (sname h)) hs in
       if same = [] then (refs m)(sblock h := sblock h)
       else (refs m)(sblock h := refs m (sblock (last same)), sblock (last same) := sblock h))"
  shows "ringOk m' (map sblock (sameName n (hs @ [h])))"
proof -
  let ?same = "sameName (lower (sname h)) hs"
  let ?ps = "map sblock ?same"
  have new: "sblock h \<notin> sblock ` set hs" and dist': "distinct (map sblock hs)" using dist by auto
  have lst: "?same \<noteq> [] \<Longrightarrow> sblock (last ?same) \<in> set ?ps" by simp
  show ?thesis
  proof (cases "lower (sname h) = n")
    case False
    have "set (map sblock (sameName n hs)) \<inter> set ?ps = {}" using sameName_disjoint [OF dist'] False by blast
    then have "q \<noteq> sblock h \<and> (?same \<noteq> [] \<longrightarrow> q \<noteq> sblock (last ?same))"
      if "q \<in> set (map sblock (sameName n hs))" for q
      using new lst sameName_blocks [of n hs] that by blast
    then have "refs m' q = refs m q" if "q \<in> set (map sblock (sameName n hs))" for q
      using that by (simp add: m' Let_def)
    then have "ringOk m' (map sblock (sameName n hs)) = ringOk m (map sblock (sameName n hs))"
      by (rule ringOk_cong)
    then show ?thesis using False rings by (simp add: sameName_append)
  next
    case True
    show ?thesis
    proof (cases "?same = []")
      case True
      then show ?thesis using \<open>lower (sname h) = n\<close> m' by (simp add: sameName_append ringOk_def)
    next
      case False
      have "ringOk m' (?ps @ [sblock h])"
        using False rings sameName_distinct [OF dist'] new sameName_blocks [of "lower (sname h)" hs] m'
        by (intro ringOk_append [of m]) (auto simp: last_map Let_def)
      then show ?thesis using \<open>lower (sname h) = n\<close> by (simp add: sameName_append)
    qed
  qed
qed

context header_names
begin

lemma store_lookup:
  assumes hm: "hashmapFor (keysIn N m) hdrHash hdrEquals m hm"
    and es: "entriesMatch m (entries hm) hs" and k: "k \<in> keysIn N m"
  shows "hmLookup m hm k =
    (let same = sameName (nameIn m k) hs in if same = [] then None else Some (sblock (last same)))"
proof -
  have ok: "entriesOk (keysIn N m) hdrHash hdrEquals m (entries hm)" using hdr.forD(4) [OF hm] .
  have eqv: "keyEquiv hdrHash hdrEquals m (key e) k \<longleftrightarrow> nameIn m (key e) = nameIn m k"
    if "e \<in> set (entries hm)" for e
    using keyEquiv_names [OF _ k] ok that by (simp add: entriesOk_def)
  show ?thesis
  proof (cases "sameName (nameIn m k) hs = []")
    case True
    then show ?thesis using hdr.lookup_None [OF hm k] eqv es
      by (fastforce simp: entriesMatch_def entryOk_def Let_def)
  next
    case False
    then have "last (sameName (nameIn m k) hs) \<in> set (sameName (nameIn m k) hs)" by simp
    then obtain e where e: "e \<in> set (entries hm)" "nameIn m (key e) = nameIn m k"
      using es by (auto simp: sameName_set entriesMatch_def)
    then have "evalue e = sblock (last (sameName (nameIn m k) hs))"
      using es by (auto simp: entriesMatch_def entryOk_def Let_def)
    then show ?thesis using e eqv False hdr.lookup_iff [OF hm k] by (auto simp: Let_def)
  qed
qed

end

lemma entryOk_append:
  assumes "entryOk m hs e" "nameIn m (key e) \<noteq> lower (sname h)"
  shows "entryOk m (hs @ [h]) e"
  using assms by (auto simp: entryOk_def Let_def sameName_append)

lemma entriesMatch_new:
  assumes es: "entriesMatch m es hs" and h: "blockOk m h" "sameName (lower (sname h)) hs = []"
    and ms: "mset es' = add_mset e (mset es)" and e: "key e = keyPos h" "evalue e = sblock h"
  shows "entriesMatch m es' (hs @ [h])"
proof -
  have set: "set es' = insert e (set es)" using ms by (metis set_mset_add_mset_insert set_mset_mset)
  have "entryOk m (hs @ [h]) x" if "x \<in> set es" for x
    using es that h(2) by (intro entryOk_append) (auto simp: entriesMatch_def entryOk_def)
  moreover have "entryOk m (hs @ [h]) e"
    using e h nameIn_block [OF h(1)] by (simp add: entryOk_def Let_def sameName_append)
  ultimately show ?thesis using set es e nameIn_block [OF h(1)] by (auto simp: entriesMatch_def)
qed

context header_names
begin

lemma entriesMatch_again:
  assumes hm: "hashmapFor (keysIn N m) hdrHash hdrEquals m hm"
    and es: "entriesMatch m (entries hm) hs"
    and split: "entries hm = A @ e # B" and e: "nameIn m (key e) = lower (sname h)"
  shows "entriesMatch m (A @ e\<lparr>evalue := sblock h\<rparr> # B) (hs @ [h])"
proof -
  have ok: "entriesOk (keysIn N m) hdrHash hdrEquals m (A @ e # B)"
    using hdr.forD(4) [OF hm] split by simp
  have "nameIn m (key x) \<noteq> lower (sname h)" if "x \<in> set A \<union> set B" for x
    using that ok e keyEquiv_names [of "key x" m "key e"] by (auto simp: entriesOk_def)
  then have "entryOk m (hs @ [h]) x" if "x \<in> set A \<union> set B" for x
    using es that split by (intro entryOk_append) (auto simp: entriesMatch_def)
  moreover have "entryOk m (hs @ [h]) (e\<lparr>evalue := sblock h\<rparr>)"
    using es split e by (auto simp: entriesMatch_def entryOk_def Let_def sameName_append)
  ultimately show ?thesis using es split e by (auto simp: entriesMatch_def)
qed

end

context header_names
begin

lemma link_header:
  assumes hm: "hashmapFor (keysIn N (mem s)) hdrHash hdrEquals (mem s) (headers s)"
    and es: "entriesMatch (mem s) (entries (headers s)) hs"
    and blk: "\<forall>x \<in> set (hs @ [h]). blockOk (mem s) x \<and> lower (sname x) \<in> N"
    and room: "unat (mapSize (headers s)) < 2 ^ 64 - 1" and mem: "malloc_ok a"
  obtains hm' r where
    "linkHeader a (keyPos h) (sblock h) s =
       (keyPos (hd (sameName (lower (sname h)) (hs @ [h]))),
        s\<lparr>headers := hm', mem := (mem s)\<lparr>refs := r\<rparr>\<rparr>)"
    "hashmapFor (keysIn N (mem s)) hdrHash hdrEquals (mem s) hm'"
    "entriesMatch (mem s) (entries hm') (hs @ [h])"
    "r = (let same = sameName (lower (sname h)) hs in
       if same = [] then (refs (mem s))(sblock h := sblock h)
       else (refs (mem s))(sblock h := refs (mem s) (sblock (last same)), sblock (last same) := sblock h))"
proof -
  let ?m = "mem s" and ?hm = "headers s" and ?k = "keyPos h"
  let ?same = "sameName (lower (sname h)) hs"
  have h: "blockOk ?m h" "lower (sname h) \<in> N" using blk by auto
  have k: "?k \<in> keysIn N ?m" "nameIn ?m ?k = lower (sname h)"
    using keysIn_block [OF h] nameIn_block [OF h(1)] by auto
  note look = store_lookup [OF hm es k(1), unfolded k(2) Let_def]
  show thesis
  proof (cases "?same = []")
    case True
    then have miss: "hmLookup ?m ?hm ?k = None" using look by simp
    obtain hm' where new: "hashmapPut a ?m ?hm ?k (sblock h) = (0, None, hm')"
      "hashmapFor (keysIn N ?m) hdrHash hdrEquals ?m hm'" "mapSize hm' = mapSize ?hm + 1"
      "mset (entries hm') = add_mset \<lparr>key = ?k, ehash = mixHash (hdrHash ?m ?k), evalue = sblock h\<rparr> (mset (entries ?hm))"
      by (rule hdr.put_new [OF hm k(1) miss room mem, of "sblock h"])
    have "entriesMatch ?m (entries hm') (hs @ [h])"
      by (rule entriesMatch_new [OF es h(1) True new(4)]) simp_all
    then show thesis
      using that [of "(refs ?m)(sblock h := sblock h)" hm'] new True miss hdr.entryGet_None [OF hm k(1)]
      by (simp add: linkHeader_def Let_def sameName_append)
  next
    case False
    then have hit: "hmLookup ?m ?hm ?k = Some (sblock (last ?same))" using look by simp
    then obtain old where old: "entryGet ?m ?hm ?k = Some old"
      using hdr.entryGet_None [OF hm k(1)] by (cases "entryGet ?m ?hm ?k") auto
    let ?e = "entryAt ?hm old"
    note e = hdr.entryGet_Some [OF hm k(1) old]
    have "key ?e \<in> keysIn N ?m" using hdr.forD(4) [OF hm] e(1) by (simp add: entriesOk_def)
    then have nm: "nameIn ?m (key ?e) = lower (sname h)"
      using keyEquiv_names [of "key ?e" ?m ?k] e(2) k by simp
    obtain A B where split: "entries ?hm = A @ ?e # B"
      "entries (setEntryValue ?hm old (sblock h)) = A @ ?e\<lparr>evalue := sblock h\<rparr> # B"
      by (rule hdr.setEntryValue_split [OF hm k(1) old])
    have match: "entriesMatch ?m (entries (setEntryValue ?hm old (sblock h))) (hs @ [h])"
      using entriesMatch_again [OF hm es split(1) nm] split(2) by simp
    have "key ?e = keyPos (hd ?same)" "evalue ?e = sblock (last ?same)"
      using es e(1) nm by (auto simp: entriesMatch_def entryOk_def Let_def)
    moreover have "hd (sameName (lower (sname h)) (hs @ [h])) = hd ?same"
      using False by (simp add: sameName_append)
    ultimately have link: "linkHeader a ?k (sblock h) s =
      (keyPos (hd (sameName (lower (sname h)) (hs @ [h]))),
       s\<lparr>headers := setEntryValue ?hm old (sblock h),
         mem := ?m\<lparr>refs := (refs ?m)(sblock h := refs ?m (sblock (last ?same)),
                                   sblock (last ?same) := sblock h)\<rparr>\<rparr>)"
      by (simp only: linkHeader_def Let_def old option.case)
    show thesis
      by (rule that [OF link hdr.setEntryValue_for [OF hm k(1) old] match])
         (simp only: Let_def False if_False)
  qed
qed

end

section \<open>Storing a header line\<close>

lemma findColon_takeWhile:
  "i \<le> n \<Longrightarrow> findColon c p n i = i + length (takeWhile (\<lambda>b. b \<noteq> 0x3a) (drop i (memBytes c p n)))"
proof (induction "n - i" arbitrary: i)
  case 0
  then show ?case by (subst findColon.simps) simp
next
  case (Suc d)
  then have "drop i (memBytes c p n) = c (p + int i) # drop (Suc i) (memBytes c p n)"
    by (simp add: Cons_nth_drop_Suc [symmetric])
  then show ?case using Suc.hyps(1) [of "Suc i"] Suc.hyps(2) Suc.prems
    by (subst findColon.simps) auto
qed

definition beforeColon :: "u8 list \<Rightarrow> u8 list" where
  "beforeColon line = takeWhile (\<lambda>b. b \<noteq> 0x3a) line"

definition afterColon :: "u8 list \<Rightarrow> u8 list" where
  "afterColon line = drop (Suc (length (beforeColon line))) line"

definition lineHeader :: "addr \<Rightarrow> u8 list \<Rightarrow> u8 \<Rightarrow> stored_header" where
  "lineHeader p line b =
     \<lparr>sblock = p, sname = trimEndBytes (beforeColon line), svalue = trimBytes (afterColon line @ [b])\<rparr>"

lemma beforeColon_less: "0x3a \<in> set line \<Longrightarrow> length (beforeColon line) < length line"
  unfolding beforeColon_def by (induction line) auto

lemma memBytes_take: "k \<le> n \<Longrightarrow> memBytes c p k = take k (memBytes c p n)"
  by (rule nth_equalityI) auto

lemma memBytes_drop: "k \<le> n \<Longrightarrow> memBytes c (p + int k) (n - k) = drop k (memBytes c p n)"
  by (rule nth_equalityI) (auto simp: algebra_simps)

text \<open>What the parsing part of \<open>header_callback\<close> finds in a line that has a colon.\<close>

lemma parse_line:
  assumes bytes: "memBytes c buffer (Suc len) = line @ [b]" and colon: "0x3a \<in> set line"
    and i: "i = findColon c buffer len 0"
    and trim: "wsp_trim c (buffer + int i + 1) (len - i) = (valStart, valueLen)"
  shows "i < len" "wsp_trim_end c buffer i \<le> len"
    "memBytes c buffer (wsp_trim_end c buffer i) = sname (lineHeader p line b)"
    "memBytes c valStart valueLen = svalue (lineHeader p line b)"
proof -
  have len: "length line = len" using arg_cong [OF bytes, of length] by simp
  have line: "memBytes c buffer len = line"
    using arg_cong [OF bytes, of "take len"] memBytes_take [of len "Suc len" c buffer] len by simp
  have i': "i = length (beforeColon line)"
    using findColon_takeWhile [of 0 len c buffer] line i by (simp add: beforeColon_def)
  show "i < len" using beforeColon_less [OF colon] i' len by simp
  then show "wsp_trim_end c buffer i \<le> len" using wsp_trim_end_le [of c buffer i] by simp
  have "memBytes c buffer i = take i line" using memBytes_take [of i len c buffer] line \<open>i < len\<close> by simp
  also have "\<dots> = beforeColon line" by (simp add: i' beforeColon_def takeWhile_eq_take [symmetric])
  finally show "memBytes c buffer (wsp_trim_end c buffer i) = sname (lineHeader p line b)"
    by (simp add: wsp_trim_end_bytes lineHeader_def)
  have "memBytes c (buffer + int (Suc i)) (Suc len - Suc i) = drop (Suc i) (line @ [b])"
    using memBytes_drop [of "Suc i" "Suc len" c buffer] bytes \<open>i < len\<close> by simp
  then have "memBytes c (buffer + int i + 1) (len - i) = afterColon line @ [b]"
    using i' len \<open>i < len\<close> by (simp add: afterColon_def algebra_simps)
  then show "memBytes c valStart valueLen = svalue (lineHeader p line b)"
    using wsp_trim_bytes(1) [OF trim] by (simp add: lineHeader_def)
qed

text \<open>Memory that no live block uses, and what \<open>malloc\<close> promises of the block it returns.\<close>

definition unusedSpace :: "cmem \<Rightarrow> addr \<Rightarrow> nat \<Rightarrow> bool" where
  "unusedSpace m p n \<longleftrightarrow> (\<forall>q k. blocks m q = Some k \<longrightarrow> outside p n q k)"

definition freshBlock :: "cmem \<Rightarrow> addr \<Rightarrow> nat \<Rightarrow> bool" where
  "freshBlock m p n \<longleftrightarrow> p > 0 \<and> unusedSpace m p n"

lemma fresh_preserves:
  assumes "freshBlock m p n" "blockOk m x" "0 < n"
    and chars: "\<And>a. a < p \<or> p + int n \<le> a \<Longrightarrow> chars m' a = chars m a"
    and blocks: "blocks m' = (blocks m)(p := z)"
  shows "blockOk m' x" "sblock x \<noteq> p"
proof -
  have out: "sblock x + int (blockSize x) \<le> p \<or> p + int n \<le> sblock x"
    using assms(1,2) by (auto simp: freshBlock_def unusedSpace_def blockOk_def outside_def)
  show ne: "sblock x \<noteq> p" using out assms(3) by (auto simp: blockSize_def)
  show "blockOk m' x" using out ne by (intro blockOk_frame [OF assms(2)]) (auto simp: blocks intro!: chars)
qed

lemma noteLength_simps [simp]:
  "mem (noteLength n s) = mem s" "headers (noteLength n s) = headers s"
  "headerPairCount (noteLength n s) = headerPairCount s" "headerPairs (noteLength n s) = headerPairs s"
  "headerBufSize (noteLength n s) = headerBufSize s" "busy (noteLength n s) = busy s"
  by (simp_all add: noteLength_def)

lemma noteLength_max: "n < 2 ^ 16 \<Longrightarrow> unat (maxHeaderLength (noteLength n s)) = max n (unat (maxHeaderLength s))"
  by (simp add: noteLength_def of_nat_inverse max_def)

lemma storePair_room:
  assumes "unat (headerPairCount s) + 1 < 2 ^ 16"
    and "storePair True False old p k s = (stored, s')"
  shows "stored" "unat (headerPairCount s') = Suc (unat (headerPairCount s))"
    "headerPairs s' = (headerPairs s)(unat (headerPairCount s) * 2 := p, unat (headerPairCount s) * 2 + 1 := k)"
    "mem s' = mem s" "headers s' = headers s" "maxHeaderLength s' = maxHeaderLength s"
    "busy s' = busy s"
  using assms by (auto simp: storePair_def headers_ensure_capacity_def Let_def unat_word_ariths split: if_splits)


lemma slotOk_append:
  assumes slots: "\<forall>i < length hs. slotOk s hs i"
    and s': "headerPairs s' = (headerPairs s)(2 * Suc (length hs) := sblock h,
       2 * Suc (length hs) + 1 := keyPos (hd (sameName (lower (sname h)) (hs @ [h]))))"
    and i: "i < length (hs @ [h])"
  shows "slotOk s' (hs @ [h]) i"
proof (cases "i < length hs")
  case True
  then have "sameName (lower (sname (hs ! i))) hs \<noteq> []" by (auto simp: sameName_empty)
  then show ?thesis
    using slots True by (auto simp: slotOk_def s' nth_append sameName_append)
next
  case False
  then have "i = length hs" using i by simp
  then show ?thesis by (simp add: slotOk_def s' nth_append)
qed

context header_names
begin

lemma entries_le:
  assumes hm: "hashmapFor (keysIn N m) hdrHash hdrEquals m hm"
    and es: "entriesMatch m (entries hm) hs"
  shows "distinct (map (\<lambda>e. nameIn m (key e)) (entries hm))"
    "set (map (\<lambda>e. nameIn m (key e)) (entries hm)) = set (map (\<lambda>h. lower (sname h)) hs)"
    "length (entries hm) \<le> length hs"
proof -
  let ?f = "\<lambda>e. nameIn m (key e)"
  have ok: "entriesOk (keysIn N m) hdrHash hdrEquals m (entries hm)" using hdr.forD(4) [OF hm] .
  show d: "distinct (map ?f (entries hm))"
    using ok keyEquiv_names by (auto simp: distinct_map entriesOk_def inj_on_def)
  show st: "set (map ?f (entries hm)) = set (map (\<lambda>h. lower (sname h)) hs)"
  proof
    show "set (map ?f (entries hm)) \<subseteq> set (map (\<lambda>h. lower (sname h)) hs)"
      using es by (auto simp: entriesMatch_def entryOk_def Let_def sameName_empty)
    show "set (map (\<lambda>h. lower (sname h)) hs) \<subseteq> set (map ?f (entries hm))"
      using es by (auto simp: entriesMatch_def) (metis image_eqI)
  qed
  have "length (entries hm) = card (set (map ?f (entries hm)))"
    using distinct_card [OF d] by simp
  also have "\<dots> \<le> length hs" using card_length [of "map (\<lambda>h. lower (sname h)) hs"] st by simp
  finally show "length (entries hm) \<le> length hs" .
qed

text \<open>The store after a block was filled, linked and entered into the pair array.\<close>

lemma storeInv_extend:
  assumes inv: "storeInv N s st hs" and ref0: "refs m2 = refs (mem s)"
    and blk: "\<forall>x \<in> set (hs @ [h]). blockOk m2 x \<and> lower (sname x) \<in> N"
    and hm': "hashmapFor (keysIn N m2) hdrHash hdrEquals m2 hm'"
    and es': "entriesMatch m2 (entries hm') (hs @ [h])"
    and r: "r = (let same = sameName (lower (sname h)) hs in
       if same = [] then (refs m2)(sblock h := sblock h)
       else (refs m2)(sblock h := refs m2 (sblock (last same)), sblock (last same) := sblock h))"
    and new: "sblock h \<notin> sblock ` set (st # hs)"
    and s': "mem s' = m2\<lparr>refs := r\<rparr>" "headers s' = hm'"
    and cnt: "unat (headerPairCount s') = Suc (Suc (length hs))"
    and pairs: "headerPairs s' = (headerPairs s)(2 * Suc (length hs) := sblock h,
       2 * Suc (length hs) + 1 := keyPos (hd (sameName (lower (sname h)) (hs @ [h]))))"
    and status: "blockOk m2 st"
    and mx: "unat (maxHeaderLength s') =
       max (length (svalue h)) (max (length (sname h)) (unat (maxHeaderLength s)))"
  shows "storeInv N s' st (hs @ [h])"
  unfolding storeInv_def
proof (intro conjI)
  let ?m3 = "m2\<lparr>refs := r\<rparr>"
  have blk3: "\<forall>x \<in> set (hs @ [h]). blockOk m2 x \<and> blockOk ?m3 x \<and> lower (sname x) \<in> N"
    using blk by (simp add: blockOk_def)
  show "statusOk s' st" using inv status pairs s' by (simp add: storeInv_def statusOk_def blockOk_def)
  show "hashmapFor (keysIn N (mem s')) hdrHash hdrEquals (mem s') (headers s')"
    using for_memory [OF hm' es' blk3] s' by simp
  show "\<forall>x \<in> set (hs @ [h]). blockOk (mem s') x \<and> lower (sname x) \<in> N" using blk3 s' by simp
  show "distinct (map sblock (st # hs @ [h]))" using inv new by (auto simp: storeInv_def)
  then have dist: "distinct (map sblock (hs @ [h]))" by simp
  have rings: "\<forall>n. ringOk m2 (map sblock (sameName n hs))"
    using inv ref0 by (simp add: storeInv_def ringOk_def)
  from rings_append [OF rings dist, of ?m3] r
  show "\<forall>n. ringOk (mem s') (map sblock (sameName n (hs @ [h])))" unfolding s' by simp
  show "entriesMatch (mem s') (entries (headers s')) (hs @ [h])"
    using entriesMatch_memory(1) [OF es', of ?m3] blk3 s' by simp
  show "unat (headerPairCount s') = Suc (length (hs @ [h]))" using cnt by simp
  show "\<forall>i < length (hs @ [h]). slotOk s' (hs @ [h]) i"
    using slotOk_append [OF _ pairs] inv by (simp add: storeInv_def)
  show "\<forall>x \<in> set (hs @ [h]). length (sname x) \<le> unat (maxHeaderLength s') \<and>
                             length (svalue x) \<le> unat (maxHeaderLength s')"
    using inv mx by (auto simp: storeInv_def)
qed

lemma header_callback_line:
  assumes inv: "storeInv N s st hs"
    and bytes: "memBytes (chars (mem s)) buffer (Suc (sz * nitems)) = line @ [b]" and colon: "0x3a \<in> set line"
    and h: "h = lineHeader (pairAddr he) line b"
    and str: "0 \<notin> set (sname h)" "0 \<notin> set (svalue h)" "lower (sname h) \<in> N"
      "length (sname h) < 2 ^ 16" "length (svalue h) < 2 ^ 16"
    and fresh: "freshBlock (mem s) (pairAddr he) (blockSize h)"
    and src: "outside (pairAddr he) (blockSize h) buffer (sz * nitems)"
    and env: "malloc_ok (entryRes he)" "realloc_ok he" and room: "length hs + 2 < 2 ^ 16"
  shows "\<exists>s'. header_callback he buffer sz nitems s = (sz * nitems, s') \<and> storeInv N s' st (hs @ [h]) \<and>
    blocks (mem s') = (blocks (mem s))(pairAddr he := Some (blockSize h)) \<and> busy s' = busy s"
proof -
  let ?c = "chars (mem s)" and ?len = "sz * nitems" and ?p = "pairAddr he"
  define i where "i = findColon ?c buffer ?len 0"
  define keyLen where "keyLen = wsp_trim_end ?c buffer i"
  obtain valStart valueLen where trim: "wsp_trim ?c (buffer + int i + 1) (?len - i) = (valStart, valueLen)"
    by fastforce
  note at = parse_line(1,2) [OF bytes colon i_def trim, folded keyLen_def]
  note parsed = parse_line(3,4) [OF bytes colon i_def trim, of ?p, folded h keyLen_def]
  have lens: "length (sname h) = keyLen" "length (svalue h) = valueLen"
    using arg_cong [OF parsed(1), of length] arg_cong [OF parsed(2), of length] by auto
  have size: "blockSize h = keyLen + 8 + valueLen + 2" by (simp add: blockSize_def lens)
  obtain k m2 where fill: "fillPair ?p buffer keyLen valStart valueLen (mem s) = (k, m2)" by fastforce
  have "outside ?p (keyLen + 8 + valueLen + 2) buffer keyLen"
    using src at(2) [THEN of_nat_mono, where 'a = int] unfolding outside_def size by linarith
  note filled = fillPair_result [OF parsed(1) str(1) parsed(2) str(2) this fill]
  have hp: "sblock h = ?p" by (simp add: h lineHeader_def)
  have k: "k = keyPos h" using filled(1) by (simp add: keyPos_def hp lens)
  have new: "blockOk m2 h"
    using filled fresh k by (simp add: blockOk_def hp size freshBlock_def)
  have old: "blockOk (mem s) x \<and> lower (sname x) \<in> N" if "x \<in> set hs" for x
    using inv that by (simp add: storeInv_def)
  have kept: "blockOk m2 x" "sblock x \<noteq> ?p" if "x \<in> set hs" for x
    using fresh_preserves [OF fresh, of x m2] old [OF that] filled size by auto
  have status: "blockOk m2 st" "sblock st \<noteq> ?p"
    using fresh_preserves [OF fresh, of st m2] inv filled size by (simp_all add: storeInv_def statusOk_def)
  let ?s2 = "s\<lparr>mem := m2\<rparr>"
  have blk: "\<forall>x \<in> set (hs @ [h]). blockOk (mem ?s2) x \<and> lower (sname x) \<in> N"
    using new kept(1) old str(3) by auto
  have hm0: "hashmapFor (keysIn N (mem s)) hdrHash hdrEquals (mem s) (headers s)"
    and es0: "entriesMatch (mem s) (entries (headers s)) hs" using inv by (auto simp: storeInv_def)
  have hm2: "hashmapFor (keysIn N (mem ?s2)) hdrHash hdrEquals (mem ?s2) (headers ?s2)"
    using for_memory [OF hm0 es0, of m2] old kept(1) by simp
  have es2: "entriesMatch (mem ?s2) (entries (headers ?s2)) hs"
    using entriesMatch_memory(1) [OF es0, of m2] old kept(1) by simp
  have few: "unat (mapSize (headers ?s2)) < 2 ^ 64 - 1"
    using entries_le(3) [OF hm0 es0] room hm0 by (simp add: hashmapFor_def hashmapInv_def)
  obtain hm' r where link: "linkHeader (entryRes he) (keyPos h) (sblock h) ?s2 =
       (keyPos (hd (sameName (lower (sname h)) (hs @ [h]))),
        ?s2\<lparr>headers := hm', mem := (mem ?s2)\<lparr>refs := r\<rparr>\<rparr>)"
    and hm3: "hashmapFor (keysIn N (mem ?s2)) hdrHash hdrEquals (mem ?s2) hm'"
    and es3: "entriesMatch (mem ?s2) (entries hm') (hs @ [h])"
    and r: "r = (let same = sameName (lower (sname h)) hs in
       if same = [] then (refs (mem ?s2))(sblock h := sblock h)
       else (refs (mem ?s2))(sblock h := refs (mem ?s2) (sblock (last same)), sblock (last same) := sblock h))"
    by (rule link_header [OF hm2 es2 blk few env(1)])
  let ?m3 = "m2\<lparr>refs := r\<rparr>"
  let ?s3 = "noteLength valueLen (noteLength keyLen (?s2\<lparr>headers := hm', mem := ?m3\<rparr>))"
  obtain stored s' where store: "storePair True False 0 ?p (keyPos (hd (sameName (lower (sname h)) (hs @ [h])))) ?s3 = (stored, s')"
    by fastforce
  have cnt: "unat (headerPairCount ?s3) = Suc (length hs)" using inv by (simp add: storeInv_def)
  have "unat (headerPairCount ?s3) + 1 < 2 ^ 16" using cnt room by simp
  note pair = storePair_room [OF this store]
  have "header_callback he buffer sz nitems s = (?len, s')"
    using at(1) fresh fill link store pair(1) env(2) trim hp k
    by (simp add: header_callback_def Let_def i_def [symmetric] keyLen_def [symmetric] freshBlock_def)
  moreover have "storeInv N s' st (hs @ [h])"
  proof (rule storeInv_extend [OF inv])
    show "\<forall>x \<in> set (hs @ [h]). blockOk m2 x \<and> lower (sname x) \<in> N"
      "hashmapFor (keysIn N m2) hdrHash hdrEquals m2 hm'" "entriesMatch m2 (entries hm') (hs @ [h])"
      using blk hm3 es3 by simp_all
    show "refs m2 = refs (mem s)" "blockOk m2 st" by (rule filled(5), rule status(1))
    show "sblock h \<notin> sblock ` set (st # hs)" using kept(2) status(2) hp by force
    show "mem s' = m2\<lparr>refs := r\<rparr>" "headers s' = hm'" using pair(4,5) by simp_all
    show "unat (headerPairCount s') = Suc (Suc (length hs))" using pair(2) cnt by simp
    show "headerPairs s' = (headerPairs s)(2 * Suc (length hs) := sblock h,
       2 * Suc (length hs) + 1 := keyPos (hd (sameName (lower (sname h)) (hs @ [h]))))"
      using pair(3) cnt hp by (simp add: mult.commute)
    show "unat (maxHeaderLength s') =
       max (length (svalue h)) (max (length (sname h)) (unat (maxHeaderLength s)))"
      using pair(6) str(4,5) lens by (simp add: noteLength_max)
    show "r = (let same = sameName (lower (sname h)) hs in
       if same = [] then (refs m2)(sblock h := sblock h)
       else (refs m2)(sblock h := refs m2 (sblock (last same)), sblock (last same) := sblock h))"
      using r by (simp add: Let_def)
  qed
  moreover have "blocks (mem s') = (blocks (mem s))(?p := Some (blockSize h))"
    using pair(4) filled(7) size by simp
  moreover have "busy s' = busy s" using pair(7) by simp
  ultimately show ?thesis by blast
qed

end
section \<open>The status line\<close>

lemma releaseLoop_frame [simp]:
  "chars (releaseLoop pairs n i m) = chars m" "refs (releaseLoop pairs n i m) = refs m"
  by (induction pairs n i m rule: releaseLoop.induct; subst releaseLoop.simps; simp add: cfree_def split: option.split)+

definition isStatusText :: "u8 list \<Rightarrow> bool" where
  "isStatusText line \<longleftrightarrow>
     5 < length line \<and> take 5 line = bytesOf ''HTTP/'' \<and> drop (length line - 2) line = [0x0d, 0x0a] \<and>
     0x3a \<notin> set line"

lemma status_line_tests:
  assumes "memBytes c buffer len = line" "isStatusText line"
  shows "findColon c buffer len 0 = len" "endsCrlf c buffer len" "isStatusLine c buffer len"
proof -
  have len: "length line = len" "5 < len" using assms by (auto simp: isStatusText_def)
  have at: "c (buffer + int i) = line ! i" if "i < len" for i using assms(1) that by auto
  have "takeWhile (\<lambda>b. b \<noteq> 0x3a) line = line" using assms(2) by (auto simp: isStatusText_def takeWhile_eq_all_conv)
  moreover have "findColon c buffer len 0 = length (takeWhile (\<lambda>b. b \<noteq> 0x3a) line)"
    using findColon_takeWhile [of 0 len c buffer] assms(1) by simp
  ultimately show "findColon c buffer len 0 = len" using len(1) by (simp only:)
  have "drop (len - 2) line ! 0 = 0x0d" "drop (len - 2) line ! 1 = 0x0a"
    using assms(2) len(1) by (auto simp: isStatusText_def)
  then have "line ! (len - 2) = 0x0d" "line ! (len - 1) = 0x0a" using len by (auto simp: numeral_2_eq_2 Suc_diff_Suc)
  then show "endsCrlf c buffer len"
    using at [of "len - 2"] at [of "len - 1"] len by (simp add: endsCrlf_def of_nat_diff add_diff_eq)
  have "line ! i = bytesOf ''HTTP/'' ! i" if "i < 5" for i
    using assms(2) that nth_take [of i 5 line] by (simp add: isStatusText_def)
  then have "line ! 0 = 0x48" "line ! 1 = 0x54" "line ! 2 = 0x54" "line ! 3 = 0x50" "line ! 4 = 0x2f"
    by (simp_all add: bytesOf_def)
  then show "isStatusLine c buffer len"
    using at [of 0] at [of 1] at [of 2] at [of 3] at [of 4] len by (simp add: isStatusLine_def)
qed

context header_names
begin

lemma header_callback_status:
  assumes hm: "hashmapFor (keysIn N m0) hdrHash hdrEquals m0 (headers s)"
    and reset: "hasState s STATE_SEEN_HEADER_END \<or> entries (headers s) = [] \<and> headerPairCount s = 0"
    and bytes: "memBytes (chars (mem s)) buffer (sz * nitems) = line" and status: "isStatusText line"
    and st: "st = \<lparr>sblock = pairAddr he, sname = trimEndBytes line, svalue = []\<rparr>" "0 \<notin> set (sname st)"
    and fresh: "freshBlock (mem (snd (beginResponse s))) (pairAddr he) (blockSize st)"
    and src: "outside (pairAddr he) (blockSize st) buffer (sz * nitems)" and env: "realloc_ok he"
  shows "\<exists>s'. header_callback he buffer sz nitems s = (sz * nitems, s') \<and> storeInv N s' st []"
proof -
  let ?c = "chars (mem s)" and ?len = "sz * nitems" and ?p = "pairAddr he"
  obtain s1 where bgn: "beginResponse s = (0, s1)" and s1: "chars (mem s1) = ?c"
      "hashmapFor (keysIn N m0) hdrHash hdrEquals m0 (headers s1)" "entries (headers s1) = []"
      "headerPairCount s1 = 0"
    using reset hm hdr.clear_laws(1) [OF hm]
    by (auto simp: beginResponse_def releaseHeaders_def SET_defs hashmapClear_def entries_def Let_def)
  define keyLen where "keyLen = wsp_trim_end ?c buffer ?len"
  have name: "memBytes (chars (mem s1)) buffer keyLen = sname st"
    using bytes s1(1) by (simp add: keyLen_def wsp_trim_end_bytes st)
  have klen: "length (sname st) = keyLen" using arg_cong [OF name, of length] by simp
  have size: "blockSize st = keyLen + 8 + 0 + 2" unfolding blockSize_def klen by (simp add: st(1))
  obtain k m2 where fill: "fillPair ?p buffer keyLen (buffer + int ?len + 1) 0 (mem s1) = (k, m2)" by fastforce
  have "keyLen \<le> ?len" unfolding keyLen_def by (rule wsp_trim_end_le)
  then have out: "outside ?p (keyLen + 8 + 0 + 2) buffer keyLen"
    using src of_nat_mono [of keyLen ?len, where 'a = int] unfolding outside_def size by linarith
  note filled = fillPair_result [OF name st(2) _ _ out fill, of "[]"]
  have k: "k = keyPos st" using filled(1) by (simp add: keyPos_def st(1))
  have blk: "blockOk m2 st"
    using filled fresh k bgn by (simp add: blockOk_def st(1) size [unfolded st(1)] freshBlock_def)
  obtain stored s' where store: "storePair True True 0 ?p (keyPos st) (s1\<lparr>mem := m2\<rparr>) = (stored, s')" by fastforce
  have s': "stored" "unat (headerPairCount s') = 1" "mem s' = m2" "headers s' = headers s1"
    "headerPairs s' 0 = ?p" "headerPairs s' 1 = keyPos st"
    using store s1(4) by (auto simp: storePair_def headers_ensure_capacity_def Let_def split: if_splits)
  have "header_callback he buffer sz nitems s = (?len, s')"
    using status_line_tests [OF bytes status] bgn fill store k fresh s'(1) env
    by (simp add: header_callback_def Let_def keyLen_def [symmetric] freshBlock_def wsp_trim_def)
  moreover have "hashmapFor (keysIn N m2) hdrHash hdrEquals m2 (headers s1)"
    using for_memory [OF s1(2), of "[]" m2] s1(3) by (simp add: entriesMatch_def)
  then have "storeInv N s' st []"
    using blk s' s1(3) st(1) by (simp add: storeInv_def statusOk_def sameName_def ringOk_def entriesMatch_def)
  ultimately show ?thesis by blast
qed

end
end
