(* ===== verification/HeaderReading.thy ===== *)
theory HeaderReading
  imports ResponseHeaders
begin

text \<open>
  Reading the store of response headers back: a header by name is the last value received for
  it, a header by position is the one that arrived at that position, and the array for Java has,
  for every name once, the name, all its values in order of arrival and a null.
\<close>

section \<open>Looking a header up\<close>

lemma storeInv_blocks: "storeInv N s st hs \<Longrightarrow> x \<in> insert st (set hs) \<Longrightarrow> blockOk (mem s) x"
  by (auto simp: storeInv_def statusOk_def)

lemma unused_preserves:
  assumes "unusedSpace m p n" "blockOk m x"
    and chars: "\<And>a. a < p \<or> p + int n \<le> a \<Longrightarrow> chars m' a = chars m a"
    and "blocks m' = blocks m"
  shows "blockOk m' x"
proof -
  have out: "sblock x + int (blockSize x) \<le> p \<or> p + int n \<le> sblock x"
    using assms(1,2) by (auto simp: unusedSpace_def blockOk_def outside_def)
  show ?thesis using out assms(4) by (intro blockOk_frame [OF assms(2)]) (auto intro!: chars)
qed

context header_names
begin

lemma storeInv_memory:
  assumes inv: "storeInv N s st hs" and "unusedSpace (mem s) p n"
    and "\<And>a. a < p \<or> p + int n \<le> a \<Longrightarrow> chars m' a = chars (mem s) a"
    and same: "blocks m' = blocks (mem s)" "refs m' = refs (mem s)"
  shows "storeInv N (s\<lparr>mem := m'\<rparr>) st hs"
proof -
  have blk: "blockOk m' x" if "x \<in> insert st (set hs)" for x
    using unused_preserves [OF assms(2) storeInv_blocks [OF inv that], of m'] assms(3,4) by blast
  have hm: "hashmapFor (keysIn N (mem s)) hdrHash hdrEquals (mem s) (headers s)"
    and es: "entriesMatch (mem s) (entries (headers s)) hs"
    and old: "\<forall>h \<in> set hs. blockOk (mem s) h \<and> lower (sname h) \<in> N"
    using inv by (auto simp: storeInv_def)
  have "hashmapFor (keysIn N m') hdrHash hdrEquals m' (headers s)"
    using for_memory [OF hm es, of m'] old blk by simp
  moreover have "entriesMatch m' (entries (headers s)) hs"
    using entriesMatch_memory(1) [OF es, of m'] old blk by simp
  ultimately show ?thesis
    using inv blk same by (simp add: storeInv_def statusOk_def slotOk_def ringOk_def)
qed

lemma getHeader_name:
  assumes inv: "storeInv N s st hs"
    and key: "kb = map ucast (take (nat l) strKey)" "0 \<notin> set kb" "lower kb \<in> N"
    and stk: "unusedSpace (mem s) stk (Suc (length kb))"
  shows "\<exists>s'. storeInv N s' st hs \<and>
    getHeader stk (Some strKey) l s =
      (let same = sameName (lower kb) hs
       in if same = [] then None else Some (sblock (last same) + 8), s')"
proof -
  let ?c = "writeBytes (chars (mem s)) stk (kb @ [0])"
  let ?m = "(mem s)\<lparr>chars := ?c\<rparr>"
  let ?s = "s\<lparr>mem := ?m\<rparr>"
  have inv': "storeInv N ?s st hs"
    by (rule storeInv_memory [OF inv stk]) (auto simp: mem_simps)
  have "isCstr ?c stk kb" using key(2) by (auto simp: isCstr_def writeBytes_def nth_append)
  then have k: "stk \<in> keysIn N ?m" "nameIn ?m stk = lower kb"
    using key(3) nameIn_cstr [of ?m stk kb] by (auto simp: keysIn_def)
  have hm: "hashmapFor (keysIn N ?m) hdrHash hdrEquals ?m (headers s)"
    and es: "entriesMatch ?m (entries (headers s)) hs" using inv' by (auto simp: storeInv_def)
  have pos: "sblock (last (sameName (lower kb) hs)) > 0" if "sameName (lower kb) hs \<noteq> []"
    using last_in_set [OF that] storeInv_blocks [OF inv] by (auto simp: sameName_set blockOk_def)
  have "hashmapGet ?m (headers s) stk =
      (let same = sameName (lower kb) hs in if same = [] then 0 else sblock (last same))"
    using hdr.get_lookup [OF hm k(1)] store_lookup [OF hm es k(1)] k(2) by (simp add: Let_def)
  moreover have "headerPairCount s \<noteq> 0" using inv by (auto simp: storeInv_def)
  ultimately have "getHeader stk (Some strKey) l s =
      (let same = sameName (lower kb) hs
       in if same = [] then None else Some (sblock (last same) + 8), ?s)"
    using pos key(1) by (cases "sameName (lower kb) hs = []") (auto simp: getHeader_def Let_def)
  then show ?thesis using inv' by blast
qed

end

lemma getSpecialHeader_slots:
  assumes inv: "storeInv N s st hs"
  shows "getSpecialHeader 0 s = Some (keyPos st)"
    "i < length hs \<Longrightarrow> getSpecialHeader (int (Suc i)) s = Some (sblock (hs ! i) + 8)"
    "i < length hs \<Longrightarrow> getSpecialHeader (- int (Suc i)) s = Some (keyPos (hd (sameName (lower (sname (hs ! i))) hs)))"
    "n \<ge> int (Suc (length hs)) \<Longrightarrow> getSpecialHeader n s = None"
proof -
  have cnt: "unat (headerPairCount s) = Suc (length hs)" and st: "statusOk s st"
    and slots: "\<forall>i < length hs. slotOk s hs i" using inv by (auto simp: storeInv_def)
  show "getSpecialHeader 0 s = Some (keyPos st)" using cnt st by (simp add: getSpecialHeader_def statusOk_def)
  have nat: "nat (2 * int (Suc i)) = 2 * Suc i" "nat (int (Suc i) * 2 + 1) = 2 * Suc i + 1" for i by linarith+
  show "getSpecialHeader (int (Suc i)) s = Some (sblock (hs ! i) + 8)" if "i < length hs"
    using cnt slots that nat [of i] unfolding getSpecialHeader_def slotOk_def by simp
  show "getSpecialHeader (- int (Suc i)) s = Some (keyPos (hd (sameName (lower (sname (hs ! i))) hs)))"
    if "i < length hs"
    using cnt slots that nat [of i] unfolding getSpecialHeader_def slotOk_def by simp
  show "n \<ge> int (Suc (length hs)) \<Longrightarrow> getSpecialHeader n s = None"
    using cnt by (simp add: getSpecialHeader_def)
qed

section \<open>Reading all headers\<close>

definition jstr :: "jvm_env \<Rightarrow> u8 list \<Rightarrow> jstring" where
  "jstr je v = map (toJchar (char_signed je)) v"

text \<open>The array while it is filled: what was written, then nulls, up to its length.\<close>

definition filled :: "nat \<Rightarrow> jstring option list \<Rightarrow> jstring option list" where
  "filled cap pre = take cap (pre @ replicate cap None)"

lemma length_filled [simp]: "length (filled cap pre) = cap"
  by (simp add: filled_def)

lemma nth_filled: "i < cap \<Longrightarrow> filled cap pre ! i = (if i < length pre then pre ! i else None)"
  by (simp add: filled_def nth_append)

lemma filled_gap: "filled cap (pre @ [None]) = filled cap pre"
  by (rule nth_equalityI) (auto simp: nth_filled nth_append)

lemma filled_put: "length pre < cap \<Longrightarrow> (filled cap pre)[length pre := Some x] = filled cap (pre @ [Some x])"
  by (rule nth_equalityI) (auto simp: nth_filled nth_append nth_list_update)

lemma setElement_filled:
  "length pre < cap \<Longrightarrow> setElement (filled cap pre) (int (length pre)) x s = (filled cap (pre @ [Some x]), s)"
  by (simp add: setElement_def filled_put)

lemma cstring_cstr: "isCstr (chars m) p v \<Longrightarrow> cstring m p = v"
  by (simp add: cstring_def strlen_cstr memBytes_cstr)

lemma value_string: "blockOk m h \<Longrightarrow> cstring m (sblock h + 8) = svalue h"
  by (rule cstring_cstr) (simp add: blockOk_def)

lemma name_string: "blockOk m h \<Longrightarrow> cstring m (keyPos h) = sname h"
  by (rule cstring_cstr) (simp add: blockOk_def)

lemma headerToString_fits: "length v \<le> capacity \<Longrightarrow> headerToString je capacity v s = (jstr je v, s)"
  by (simp add: headerToString_def jstr_def)

text \<open>The ring walk stores the values of all headers of a name, in order of arrival.\<close>

lemma valuesLoop_ring:
  assumes "\<forall>n. string_ok je n"
    and ring: "ringOk (mem s) (map sblock same)" and dist: "distinct (map sblock same)"
    and blk: "\<forall>h \<in> set same. blockOk (mem s) h \<and> length (svalue h) \<le> capacity"
    and j: "j < length same" and fits: "length pre + (length same - j) \<le> cap"
  shows "valuesLoop je capacity (sblock (hd same)) (sblock (same ! j)) (filled cap pre, length pre, s) =
    Some (Some (filled cap (pre @ map (\<lambda>h. Some (jstr je (svalue h))) (drop j same)),
                length pre + (length same - j)), s)"
  using j fits
proof (induction "length same - j" arbitrary: j pre)
  case (Suc d)
  have h: "blockOk (mem s) (same ! j)" "length (svalue (same ! j)) \<le> capacity" using blk Suc.prems by auto
  have str: "headerToString je capacity (cstring (mem s) (sblock (same ! j) + 8)) s = (jstr je (svalue (same ! j)), s)"
    using h by (simp add: headerToString_fits value_string)
  have nxt: "refs (mem s) (sblock (same ! j)) = sblock (same ! (Suc j mod length same))"
    using ring Suc.prems(1) unfolding ringOk_def by (metis length_map mod_less_divisor nth_map gr_implies_not0 neq0_conv)
  have hd: "hd same = same ! 0" using Suc.prems(1) by (cases same) auto
  have drop: "drop j same = same ! j # drop (Suc j) same" using Suc.prems(1) by (simp add: Cons_nth_drop_Suc)
  show ?case
  proof (cases "Suc j = length same")
    case True
    then have "length same - j = 1" "drop (Suc j) same = []" "Suc j mod length same = 0" by auto
    then show ?thesis
      using Suc.prems nxt hd drop str assms(1)
      by (subst valuesLoop.simps) (simp add: Let_def setElement_filled)
  next
    case False
    then have j': "Suc j < length same" using Suc.prems(1) by simp
    then have "sblock (same ! Suc j) \<noteq> sblock (hd same)"
      using nth_eq_iff_index_eq [OF dist, of "Suc j" 0] hd by (metis Suc_neq_Zero length_map nth_map zero_less_Suc less_trans)
    moreover have "d = length same - Suc j" using Suc.hyps(2) by simp
    ultimately show ?thesis
      using Suc.hyps(1) [of "Suc j" "pre @ [Some (jstr je (svalue (same ! j)))]"] Suc.prems j' nxt drop str assms(1)
      by (subst valuesLoop.simps) (simp add: Let_def setElement_filled)
  qed
qed simp


text \<open>What \<open>getResponseHeaders\<close> writes for one name: the name, its values, a null.\<close>

definition headerRow :: "jvm_env \<Rightarrow> stored_header list \<Rightarrow> u8 list \<Rightarrow> jstring option list" where
  "headerRow je hs n =
     (let same = sameName n hs
      in Some (jstr je (sname (hd same))) # map (\<lambda>h. Some (jstr je (svalue h))) same @ [None])"

lemma length_headerRow: "length (headerRow je hs n) = length (sameName n hs) + 2"
  by (simp add: headerRow_def Let_def)

lemma responseChain_rows:
  assumes je: "\<forall>n. string_ok je n" and inv: "storeInv N s st hs"
    and "\<forall>e \<in> set es. entryOk (mem s) hs e"
    and "rows = concat (map (\<lambda>e. headerRow je hs (nameIn (mem s) (key e))) es)"
    and "length pre + length rows \<le> Suc cap"
  shows "responseChain je (unat (maxHeaderLength s)) es (filled cap pre, length pre, s) =
    Some (Some (filled cap (pre @ rows), length (pre @ rows)), s)"
  using assms(3-5)
proof (induction es arbitrary: pre rows)
  case (Cons e es)
  let ?same = "sameName (nameIn (mem s) (key e)) hs"
  define rest where "rest = concat (map (\<lambda>e. headerRow je hs (nameIn (mem s) (key e))) es)"
  define pre1 where "pre1 = pre @ [Some (jstr je (sname (hd ?same)))]"
  define pre2 where "pre2 = pre1 @ map (\<lambda>h. Some (jstr je (svalue h))) ?same"
  have e: "?same \<noteq> []" "key e = keyPos (hd ?same)" "evalue e = sblock (last ?same)"
    using Cons.prems(1) by (auto simp: entryOk_def Let_def)
  have blk: "\<forall>h \<in> set ?same. blockOk (mem s) h \<and> length (svalue h) \<le> unat (maxHeaderLength s)"
    and nm: "length (sname (hd ?same)) \<le> unat (maxHeaderLength s)" "blockOk (mem s) (hd ?same)"
    using inv hd_in_set [OF e(1)] by (auto simp: storeInv_def sameName_set)
  have ring: "ringOk (mem s) (map sblock ?same)" "distinct (map sblock ?same)"
    using inv sameName_distinct by (auto simp: storeInv_def)
  have rows: "rows = headerRow je hs (nameIn (mem s) (key e)) @ rest" using Cons.prems(2) by (simp add: rest_def)
  have room: "length pre1 + length ?same \<le> cap" "length pre < cap"
    using Cons.prems(3) e(1) by (auto simp: rows length_headerRow pre1_def)
  have "refs (mem s) (evalue e) = sblock (hd ?same)"
    using ringOk_last [OF ring(1)] e by (simp add: last_map hd_map)
  moreover have "valuesLoop je (unat (maxHeaderLength s)) (sblock (hd ?same)) (sblock (hd ?same)) (filled cap pre1, length pre1, s) =
    Some (Some (filled cap pre2, length pre2), s)"
    using valuesLoop_ring [OF je ring blk, of 0 pre1 cap] room e(1) by (simp add: pre2_def hd_conv_nth)
  moreover have "filled cap pre2 = filled cap (pre2 @ [None])" by (simp add: filled_gap)
  moreover have "responseChain je (unat (maxHeaderLength s)) es (filled cap (pre2 @ [None]), length (pre2 @ [None]), s) =
    Some (Some (filled cap ((pre2 @ [None]) @ rest), length ((pre2 @ [None]) @ rest)), s)"
    using Cons.prems rows by (intro Cons.IH) (auto simp: rest_def pre2_def pre1_def length_headerRow)
  moreover have "pre @ rows = (pre2 @ [None]) @ rest"
    by (simp add: rows pre2_def pre1_def headerRow_def Let_def)
  moreover have "headerToString je (unat (maxHeaderLength s)) (cstring (mem s) (key e)) s =
      (jstr je (sname (hd ?same)), s)"
    using name_string [OF nm(2)] nm(1) e(2) by (metis headerToString_fits)
  ultimately show ?case
    using je room(2) by (simp add: setElement_filled pre1_def Let_def)
qed simp


lemma responseBuckets_rows:
  assumes je: "\<forall>n. string_ok je n" and inv: "storeInv N s st hs"
    and "\<forall>e \<in> set (concat bs). entryOk (mem s) hs e"
    and "rows = concat (map (\<lambda>e. headerRow je hs (nameIn (mem s) (key e))) (concat bs))"
    and "length pre + length rows \<le> Suc cap"
  shows "responseBuckets je (unat (maxHeaderLength s)) bs (filled cap pre, length pre, s) =
    Some (Some (filled cap (pre @ rows), length (pre @ rows)), s)"
  using assms(3-5)
proof (induction bs arbitrary: pre rows)
  case (Cons b bs)
  define rb where "rb = concat (map (\<lambda>e. headerRow je hs (nameIn (mem s) (key e))) b)"
  define rest where "rest = concat (map (\<lambda>e. headerRow je hs (nameIn (mem s) (key e))) (concat bs))"
  have rows: "rows = rb @ rest" using Cons.prems(2) by (simp add: rb_def rest_def)
  have len: "length pre + (length rb + length rest) \<le> Suc cap" using Cons.prems(3) unfolding rows by simp
  have "responseChain je (unat (maxHeaderLength s)) b (filled cap pre, length pre, s) =
    Some (Some (filled cap (pre @ rb), length (pre @ rb)), s)"
    using Cons.prems(1) len by (intro responseChain_rows [OF je inv _ rb_def]) auto
  moreover have "responseBuckets je (unat (maxHeaderLength s)) bs (filled cap (pre @ rb), length (pre @ rb), s) =
    Some (Some (filled cap ((pre @ rb) @ rest), length ((pre @ rb) @ rest)), s)"
    using Cons.prems(1) len by (intro Cons.IH [OF _ rest_def]) auto
  ultimately show ?case by (simp add: rows)
qed simp

text \<open>The rows of all names, one after the other.\<close>

lemma count_names: "count (mset (map (\<lambda>h. lower (sname h)) hs)) n = length (sameName n hs)"
  by (induction hs) (auto simp: sameName_def)

lemma length_same_names:
  "distinct ns \<Longrightarrow> set ns = set (map (\<lambda>h. lower (sname h)) hs) \<Longrightarrow> (\<Sum>n\<leftarrow>ns. length (sameName n hs)) = length hs"
proof -
  assume d: "distinct ns" and ns: "set ns = set (map (\<lambda>h. lower (sname h)) hs)"
  have "(\<Sum>n\<leftarrow>ns. length (sameName n hs)) = (\<Sum>n \<in> set ns. length (sameName n hs))"
    by (rule sum_list_distinct_conv_sum_set [OF d])
  also have "\<dots> = (\<Sum>n \<in> set ns. count (mset (map (\<lambda>h. lower (sname h)) hs)) n)"
    using count_names by simp
  also have "\<dots> = length hs" using ns by (metis length_map size_mset set_mset_mset size_multiset_overloaded_eq)
  finally show ?thesis .
qed

lemma sint_small:
  assumes "0 \<le> z" "z < 2 ^ 31"
  shows "sint (ucast (of_int z :: u64) :: u32) = z"
proof -
  have "ucast (of_int z :: u64) = (of_int z :: u32)" by transfer simp
  then show ?thesis using assms by (simp add: signed_of_int signed_take_bit_int_eq_self)
qed


context header_names
begin

lemma arrayCapacity_exact:
  assumes inv: "storeInv N s st hs" and "hs \<noteq> []"
  shows "arrayCapacity s = int (2 * length (entries (headers s)) + length hs) - 1"
proof -
  have hm: "hashmapFor (keysIn N (mem s)) hdrHash hdrEquals (mem s) (headers s)"
    and es: "entriesMatch (mem s) (entries (headers s)) hs"
    and cnt: "unat (headerPairCount s) = Suc (length hs)" using inv by (auto simp: storeInv_def)
  let ?E = "length (entries (headers s))" and ?sz = "mapSize (headers s)"
  have E: "unat ?sz = ?E" "?E \<le> length hs" "Suc (length hs) < 2 ^ 16"
    using hm entries_le(3) [OF hm es] cnt unsigned_less [of "headerPairCount s", where 'a = nat]
    by (auto simp: hashmapFor_def hashmapInv_def)
  have "?sz = of_int (int ?E)" unfolding E(1) [symmetric] by simp
  then have "?sz * 3 + (of_int (int (unat (headerPairCount s)) - 1) - ?sz) - 1 =
      (of_int (int (2 * ?E + length hs) - 1) :: u64)"
    using cnt by (simp add: algebra_simps)
  moreover have "0 \<le> int (2 * ?E + length hs) - 1"
    using length_greater_0_conv [THEN iffD2, OF assms(2)] by linarith
  then have "sint (ucast (of_int (int (2 * ?E + length hs) - 1) :: u64) :: u32) = int (2 * ?E + length hs) - 1"
    by (rule sint_small) (use E(2,3) in simp)
  ultimately show ?thesis by (simp add: arrayCapacity_def Let_def)
qed

lemma getResponseHeaders_rows:
  assumes inv: "storeInv N s st hs" and "hs \<noteq> []"
    and je: "\<forall>n. string_ok je n" "temp_ok je" "array_ok je" "frame_ok je"
  shows "\<exists>ns. distinct ns \<and> set ns = set (map (\<lambda>h. lower (sname h)) hs) \<and>
    getResponseHeaders je s = Some (Some (butlast (concat (map (headerRow je hs) ns))), s)"
proof -
  have hm: "hashmapFor (keysIn N (mem s)) hdrHash hdrEquals (mem s) (headers s)"
    and es: "entriesMatch (mem s) (entries (headers s)) hs" using inv by (auto simp: storeInv_def)
  define ns where "ns = map (\<lambda>e. nameIn (mem s) (key e)) (entries (headers s))"
  define rows where "rows = concat (map (headerRow je hs) ns)"
  note names = entries_le(1,2) [OF hm es, folded ns_def]
  have "ns \<noteq> []" using names(2) assms(2) by auto
  then have ne: "entries (headers s) \<noteq> []" by (simp add: ns_def)
  have length_ns: "length ns = length (entries (headers s))" by (simp add: ns_def)
  have "length rows = (\<Sum>n\<leftarrow>ns. length (sameName n hs) + 2)"
    by (simp add: rows_def length_concat comp_def length_headerRow)
  then have len: "length rows = length hs + 2 * length (entries (headers s))"
    using length_same_names [OF names] length_ns by (simp add: sum_list_addf sum_list_triv del: add_2_eq_Suc')
  then have cap: "nat (arrayCapacity s) = length rows - 1" "\<not> arrayCapacity s < 0"
    using arrayCapacity_exact [OF inv assms(2)] length_greater_0_conv [THEN iffD2, OF ne] by linarith+
  have "mapSize (headers s) \<noteq> 0"
    using hm ne by (auto simp: hashmapFor_def hashmapInv_def)
  moreover have "responseBuckets je (unat (maxHeaderLength s)) (buckets (headers s))
      (filled (length rows - 1) [], length ([] :: jstring option list), s) =
    Some (Some (filled (length rows - 1) ([] @ rows), length ([] @ rows)), s)"
    using es by (intro responseBuckets_rows [OF je(1) inv])
      (auto simp: rows_def ns_def comp_def entriesMatch_def entries_def)
  moreover have "filled (length rows - 1) rows = butlast rows"
    by (simp add: filled_def butlast_conv_take)
  moreover have "replicate (length rows - 1) None = filled (length rows - 1) []" by (simp add: filled_def)
  ultimately have "getResponseHeaders je s = Some (Some (butlast rows), s)"
    using je cap by (simp add: getResponseHeaders_def Let_def)
  then show ?thesis using names rows_def by blast
qed

end
end
