(* ===== verification/ResponseLaws.thy ===== *)
theory ResponseLaws
  imports HeaderReading
begin

text \<open>
  The properties of the response header store: storing a line, starting a new response, reading
  by name, by position and all at once, releasing, and the number headers.  The example state at
  the end is the one the witnesses use.
\<close>

section \<open>Helper lemmas\<close>

lemma take_image_iff:
  assumes "distinct (map f xs)" "i < length xs"
  shows "f (xs ! i) \<in> f ` set (take k xs) \<longleftrightarrow> i < k"
proof
  assume "f (xs ! i) \<in> f ` set (take k xs)"
  then obtain j where "j < k" "j < length xs" "f (xs ! i) = f (xs ! j)"
    by (auto simp: in_set_conv_nth)
  then show "i < k" using nth_eq_iff_index_eq [OF assms(1), of i j] assms(2) by simp
next
  assume "i < k"
  then have "xs ! i = take k xs ! i" "i < length (take k xs)" using assms(2) by simp_all
  then show "f (xs ! i) \<in> f ` set (take k xs)" by (metis imageI nth_mem)
qed

lemma storeInv_busy [simp]: "storeInv N (s\<lparr>busy := b\<rparr>) st hs = storeInv N s st hs"
  by (simp add: storeInv_def statusOk_def slotOk_def)

lemma last_stored:
  assumes "storeInv N s st hs" "sameName n hs \<noteq> []"
  shows "blockOk (mem s) (last (sameName n hs))"
  using last_in_set [OF assms(2)] storeInv_blocks [OF assms(1)] by (auto simp: sameName_set)

lemma wsp_trim_case:
  "case wsp_trim c p n of (q, k) \<Rightarrow>
     memBytes c q k = trimBytes (memBytes c p n) \<and> p \<le> q \<and> q + int k \<le> p + int n"
  using wsp_trim_bytes [of c p n] by (auto split: prod.split)

lemma releaseLoop_fold:
  "releaseLoop pairs n (2 * a) m = fold cfree (map (\<lambda>j. pairs (2 * j)) [a..<Suc n div 2]) m"
proof (induction "Suc n div 2 - a" arbitrary: a m)
  case 0
  then have "\<not> 2 * a < n" by linarith
  then show ?case using 0 by (subst releaseLoop.simps) simp
next
  case (Suc d)
  then have "2 * a < n" "a < Suc n div 2" by linarith+
  moreover have "2 * a + 2 = 2 * Suc a" by simp
  ultimately show ?case using Suc.hyps(1) [of "Suc a"] Suc.hyps(2)
    by (subst releaseLoop.simps) (simp add: upt_conv_Cons del: mult_Suc_right)
qed

lemma fold_cfree:
  assumes "distinct ps" "\<forall>p \<in> set ps. p > 0 \<and> blocks m p \<noteq> None"
  shows "faults (fold cfree ps m) = faults m \<and>
    blocks (fold cfree ps m) = (\<lambda>q. if q \<in> set ps then None else blocks m q)"
  using assms
proof (induction ps arbitrary: m)
  case (Cons p ps)
  have "faults (cfree p m) = faults m" "blocks (cfree p m) = (blocks m)(p := None)"
    using Cons.prems by (auto simp: cfree_def)
  moreover have "\<forall>q \<in> set ps. q > 0 \<and> blocks (cfree p m) q \<noteq> None" using Cons.prems calculation by auto
  ultimately show ?case using Cons.IH [of "cfree p m"] Cons.prems(1) by (simp add: fun_eq_iff)
qed simp

lemma pairs_even:
  assumes "storeInv N s st hs" "j \<le> length hs"
  shows "headerPairs s (2 * j) = sblock ((st # hs) ! j)"
  using assms by (cases j) (auto simp: storeInv_def statusOk_def slotOk_def)

lemma releaseHeaders_blocks:
  assumes inv: "storeInv N s st hs"
  defines "freed \<equiv> take (Suc (Suc (length hs)) div 2) (st # hs)"
  shows "faults (mem (releaseHeaders s)) = faults (mem s)"
    "blocks (mem (releaseHeaders s)) = (\<lambda>q. if q \<in> sblock ` set freed then None else blocks (mem s) q)"
proof -
  let ?k = "Suc (Suc (length hs)) div 2"
  have cnt: "unat (headerPairCount s) = Suc (length hs)" using inv by (simp add: storeInv_def)
  have ps: "map (\<lambda>j. headerPairs s (2 * j)) [0..<?k] = map sblock freed"
  proof (rule nth_equalityI)
    fix i assume "i < length (map (\<lambda>j. headerPairs s (2 * j)) [0..<?k])"
    then have i: "i < ?k" by simp
    then have "i \<le> length hs" by linarith
    moreover have "freed ! i = (st # hs) ! i" unfolding freed_def by (rule nth_take [OF i])
    moreover have "i < length freed" using i \<open>i \<le> length hs\<close> by (simp add: freed_def)
    ultimately show "map (\<lambda>j. headerPairs s (2 * j)) [0..<?k] ! i = map sblock freed ! i"
      using i pairs_even [OF inv, of i] by (simp del: upt_Suc)
  qed (simp add: freed_def)
  have "distinct (map sblock (st # hs))" using inv by (simp add: storeInv_def)
  then have d: "distinct (map sblock freed)" unfolding freed_def by (metis distinct_take take_map)
  have blk: "blockOk (mem s) x" if "x \<in> set freed" for x
    using that storeInv_blocks [OF inv] in_set_takeD [of x ?k "st # hs"] by (auto simp: freed_def)
  have "\<forall>p \<in> set (map sblock freed). p > 0 \<and> blocks (mem s) p \<noteq> None"
    using blk by (auto simp: blockOk_def)
  note freed = fold_cfree [OF d this]
  have "mem (releaseHeaders s) = fold cfree (map sblock freed) (mem s)"
    using releaseLoop_fold [of "headerPairs s" "Suc (length hs)" 0 "mem s"]
    unfolding releaseHeaders_def ps cnt by simp
  with freed show "faults (mem (releaseHeaders s)) = faults (mem s)"
    "blocks (mem (releaseHeaders s)) = (\<lambda>q. if q \<in> sblock ` set freed then None else blocks (mem s) q)"
    by simp_all
qed

section \<open>Numbers\<close>

text \<open>The decimal digits of a number, as a server prints them.\<close>

fun decimal :: "nat \<Rightarrow> u8 list" where
  "decimal n = (if n < 10 then [of_nat (0x30 + n)] else decimal (n div 10) @ [of_nat (0x30 + n mod 10)])"

declare decimal.simps [simp del]

lemma digit_byte:
  assumes "d < 10"
  shows "int (unat (of_nat (0x30 + d) :: u8)) = 0x30 + int d" "isDigit (of_nat (0x30 + d))"
proof -
  have u: "unat (of_nat (0x30 + d) :: u8) = 0x30 + d"
    by (rule of_nat_inverse) (use assms in simp_all)
  then show "int (unat (of_nat (0x30 + d) :: u8)) = 0x30 + int d" by simp
  show "isDigit (of_nat (0x30 + d))"
    unfolding isDigit_def word_le_nat_alt u using assms by simp
qed

lemma decimal_digits:
  "decimal n \<noteq> [] \<and> (\<forall>b \<in> set (decimal n). isDigit b) \<and> digitsValue (decimal n) = int n"
proof (induction n rule: decimal.induct)
  case (1 n)
  have "n mod 10 < 10" by simp
  note d = digit_byte [OF this]
  show ?case
  proof (cases "n < 10")
    case True
    then have "decimal n = [of_nat (0x30 + n)]" by (subst decimal.simps) simp
    then show ?thesis using digit_byte [OF True] by (simp add: digitsValue_def)
  next
    case False
    then have eq: "decimal n = decimal (n div 10) @ [of_nat (0x30 + n mod 10)]" by (subst decimal.simps) simp
    then have "digitsValue (decimal n) = int (n div 10) * 10 + int (n mod 10)"
      using 1 [OF False] d(1) by (simp add: digitsValue_def)
    moreover have "int (n div 10) * 10 + int (n mod 10) = int n" by (metis div_mult_mod_eq of_nat_add of_nat_mult of_nat_numeral)
    ultimately show ?thesis using 1 [OF False] d(2) eq by auto
  qed
qed

lemma digit_not_blank: "isDigit b \<Longrightarrow> \<not> isSpace b \<and> b \<noteq> 0x2d \<and> b \<noteq> 0x2b \<and> b \<noteq> 0"
  by (auto simp: isDigit_def isSpace_def word_le_nat_alt)

text \<open>The conversion reads back every decimal number below \<open>2^63\<close>.\<close>

lemma strtoll_decimal:
  assumes "int n < 2 ^ 63"
  shows "strtoll (decimal n) = (int n, length (decimal n))"
proof -
  obtain b bs where ds: "decimal n = b # bs" using decimal_digits [of n] by (cases "decimal n") auto
  have "isDigit b" using decimal_digits [of n] ds by simp
  note b = digit_not_blank [OF this]
  have tw: "takeWhile isDigit bs = bs"
    using decimal_digits [of n] ds by (simp add: takeWhile_eq_all_conv)
  show ?thesis
    using decimal_digits [of n] b assms ds by (simp add: tw strtoll_def Let_def clamp64_def)
qed

lemma intHeader_lookup:
  assumes names: "header_names N" and inv: "storeInv N s st hs" and free: "busy s = 0"
    and key: "kb = map ucast (take (nat l) strKey)" "0 \<notin> set kb" "lower kb \<in> N"
    and stk: "unusedSpace (mem s) stk (Suc (length kb))"
  shows "\<exists>s'. storeInv N s' st hs \<and> busy s' = 0 \<and>
    Curl_intHeader stk rc dflt (Some strKey) l s =
      (let same = sameName (lower kb) hs; v = svalue (last same)
       in if same \<noteq> [] \<and> snd (strtoll v) = length v then fst (strtoll v) else dflt, s')"
proof -
  let ?same = "sameName (lower kb) hs"
  obtain s1 where s1: "storeInv N s1 st hs" "getHeader stk (Some strKey) l (s\<lparr>busy := 1\<rparr>) =
      (let same = sameName (lower kb) hs in if same = [] then None else Some (sblock (last same) + 8), s1)"
    using header_names.getHeader_name [OF names, of "s\<lparr>busy := 1\<rparr>" st hs kb l strKey stk] inv key stk by auto
  have v: "cstring (mem s1) (sblock (last ?same) + 8) = svalue (last ?same)" if "?same \<noteq> []"
    using value_string [OF last_stored [OF s1(1) that]] .
  have "Curl_intHeader stk rc dflt (Some strKey) l s =
      (let same = ?same; v = svalue (last same)
       in if same \<noteq> [] \<and> snd (strtoll v) = length v then fst (strtoll v) else dflt, RELEASE s1)"
    using s1(2) free v by (cases "?same = []") (auto simp: Curl_intHeader_def ACQUIRE_def Let_def split: prod.split)
  then show ?thesis using s1(1) by (intro exI [of _ "RELEASE s1"]) (simp add: RELEASE_def)
qed

section \<open>An example state\<close>

text \<open>After the status line; the next header line is in curl's buffer at 1000.\<close>

definition demoStatus :: stored_header where
  "demoStatus = \<lparr>sblock = 16, sname = bytesOf ''HTTP/1.1 200 OK'', svalue = []\<rparr>"

definition demoLine :: "u8 list" where
  "demoLine = bytesOf ''Age: 15'' @ [0x0d, 0x0a]"

definition demoHeader :: stored_header where
  "demoHeader = \<lparr>sblock = 2000, sname = bytesOf ''Age'', svalue = bytesOf ''15''\<rparr>"

definition demoMem :: cmem where
  "demoMem = \<lparr>chars = writeBytes (writeBytes (\<lambda>a. 0) 25 (bytesOf ''HTTP/1.1 200 OK'')) 1000 demoLine,
     refs = (\<lambda>a. 0), blocks = [16 \<mapsto> 25], faults = []\<rparr>"

definition demoNative :: "unit native" where
  "demoNative = \<lparr>outHeaders = [], bufferForReceiving = None, bufferForSending = None,
     headers = freshMap hdrHash hdrEquals 3, headerPairs = (\<lambda>i. if i = 0 then 16 else 25),
     headerBufSize = 20, headerPairCount = 1, maxHeaderLength = 0, uploadedCount = 0, uploadGoal = 0,
     state = 0, readOffset = 0, countToRead = 0, readOverflow = 0, writeOffset = 0, countToWrite = 0,
     connTimeout = 0, readTimeout = 0, interrupted = 0, busy = 0, outHeaderCount = 0, errorBuffer = [],
     mem = demoMem, pairsBytes = 320, jarrays = (\<lambda>r. []), thrown = [], pending = False, easyOpts = (\<lambda>x. None), ext = ()\<rparr>"

definition demoEnv :: hdr_env where
  "demoEnv = \<lparr>pairAddr = 2000, entryRes = \<lparr>malloc_ok = True, calloc_ok = True\<rparr>, realloc_ok = True\<rparr>"

lemma demo_status: "statusOk demoNative demoStatus"
  by code_simp

lemma demo_buffer: "memBytes (chars (mem demoNative)) 1000 (Suc (1 * 9)) = demoLine @ [0]"
  by code_simp

lemma demo_parsed: "lineHeader (pairAddr demoEnv) demoLine 0 = demoHeader"
  by code_simp

lemma fresh_store:
  assumes "statusOk s st" "headers s = freshMap hdrHash hdrEquals 3" "headerPairCount s = 1"
  shows "storeInv N s st []"
  using assms freshMap_ok [of 3 "keysIn N (mem s)" hdrHash hdrEquals "mem s"]
  by (simp add: storeInv_def sameName_def ringOk_def entriesMatch_def)
     (simp add: freshMap_def entries_def)

lemma demo_inv: "storeInv (set commonHeaders) demoNative demoStatus []"
  by (rule fresh_store [OF demo_status]) (simp_all add: demoNative_def)

lemma demo_name: "lower (sname demoHeader) \<in> set commonHeaders" "0 \<notin> set (sname demoHeader)" "0 \<notin> set (svalue demoHeader)"
  by code_simp+

lemma demo_blocks: "blocks (mem demoNative) = [16 \<mapsto> 25]" "blockSize demoHeader = 15" "pairAddr demoEnv = 2000"
  "malloc_ok (entryRes demoEnv)" "realloc_ok demoEnv" "busy demoNative = 0"
  by (simp_all add: demoNative_def demoMem_def demoEnv_def demoHeader_def blockSize_def bytesOf_def)

lemma demo_space: "freshBlock (mem demoNative) (pairAddr demoEnv) (blockSize demoHeader)"
  "outside (pairAddr demoEnv) (blockSize demoHeader) 1000 (1 * 9)"
  by (auto simp: freshBlock_def unusedSpace_def outside_def demo_blocks split: if_splits)

lemma demo_stored:
  "\<exists>s' :: unit native. storeInv (set commonHeaders) s' demoStatus [demoHeader] \<and> unusedSpace (mem s') 5000 20 \<and> busy s' = 0"
proof -
  have "\<exists>s'. header_callback demoEnv 1000 1 9 demoNative = (1 * 9, s') \<and>
      storeInv (set commonHeaders) s' demoStatus ([] @ [demoHeader]) \<and>
      blocks (mem s') = (blocks (mem demoNative))(pairAddr demoEnv := Some (blockSize demoHeader)) \<and>
      busy s' = busy demoNative"
    by (rule common.header_callback_line [OF demo_inv demo_buffer])
       (use demo_parsed demo_name demo_space demo_blocks in \<open>auto simp: demoLine_def demoHeader_def bytesOf_def\<close>)
  then obtain s' :: "unit native" where s': "storeInv (set commonHeaders) s' demoStatus [demoHeader]"
    "blocks (mem s') = [16 \<mapsto> 25, 2000 \<mapsto> 15]" "busy s' = 0"
    by (auto simp: demo_blocks)
  then have "unusedSpace (mem s') 5000 20" by (auto simp: unusedSpace_def outside_def split: if_splits)
  with s' show ?thesis by blast
qed

section \<open>Properties\<close>

text \<open>C10: \<open>header_callback\<close> on a header line with a colon: provided \<open>malloc\<close> returns unused
  memory and the name is one the map can tell apart, the callback takes the whole line, and the
  store holds the same headers as before plus the trimmed name and value at the end.  The whole
  representation is kept: strings, rings, map, pair array, longest length.  \<open>b\<close> is the byte
  after the line, which the code reads too.\<close>

theorem header_callback_stores_line:
  assumes "header_names N" "storeInv N s st hs"
    and "memBytes (chars (mem s)) buffer (Suc (sz * nitems)) = line @ [b]" "0x3a \<in> set line"
    and "h = lineHeader (pairAddr he) line b"
    and "0 \<notin> set (sname h)" "0 \<notin> set (svalue h)" "lower (sname h) \<in> N"
      "length (sname h) < 2 ^ 16" "length (svalue h) < 2 ^ 16"
    and "freshBlock (mem s) (pairAddr he) (blockSize h)"
    and "outside (pairAddr he) (blockSize h) buffer (sz * nitems)"
    and "malloc_ok (entryRes he)" "realloc_ok he" "length hs + 2 < 2 ^ 16"
  shows "\<exists>s'. header_callback he buffer sz nitems s = (sz * nitems, s') \<and> storeInv N s' st (hs @ [h]) \<and>
    blocks (mem s') = (blocks (mem s))(pairAddr he := Some (blockSize h)) \<and> busy s' = busy s"
  by (rule header_names.header_callback_line [OF assms])

theorem header_callback_stores_line_witness:
  "\<exists>s'. header_callback demoEnv 1000 1 9 demoNative = (9, s') \<and>
     storeInv (set commonHeaders) s' demoStatus [demoHeader]"
  using header_callback_stores_line [OF common.header_names_axioms demo_inv demo_buffer, of demoHeader demoEnv]
    demo_parsed demo_name demo_space demo_blocks
  by (auto simp: demoLine_def demoHeader_def bytesOf_def)


text \<open>C18: \<open>header_callback\<close> on a status line, at the first response or after the end of the
  headers of an earlier one: the headers of the earlier response are gone from the map and the
  pair array, and the store holds the status line and no header.\<close>

theorem header_callback_status_line:
  assumes "header_names N" "hashmapFor (keysIn N m0) hdrHash hdrEquals m0 (headers s)"
    and "hasState s STATE_SEEN_HEADER_END \<or> entries (headers s) = [] \<and> headerPairCount s = 0"
    and "memBytes (chars (mem s)) buffer (sz * nitems) = line" "isStatusText line"
    and "st = \<lparr>sblock = pairAddr he, sname = trimEndBytes line, svalue = []\<rparr>" "0 \<notin> set (sname st)"
    and "freshBlock (mem (snd (beginResponse s))) (pairAddr he) (blockSize st)"
    and "outside (pairAddr he) (blockSize st) buffer (sz * nitems)" "realloc_ok he"
  shows "\<exists>s'. header_callback he buffer sz nitems s = (sz * nitems, s') \<and> storeInv N s' st []"
  by (rule header_names.header_callback_status [OF assms])

definition demoRestart :: "unit native" where
  "demoRestart = demoNative\<lparr>state := STATE_SEEN_HEADER_END,
     mem := demoMem\<lparr>chars := writeBytes (\<lambda>a. 0) 1000 (bytesOf ''HTTP/1.1 200 OK'' @ [0x0d, 0x0a])\<rparr>\<rparr>"

theorem header_callback_status_line_witness:
  "\<exists>s'. header_callback demoEnv 1000 1 17 demoRestart = (17, s') \<and>
     storeInv (set commonHeaders) s' \<lparr>sblock = 2000, sname = bytesOf ''HTTP/1.1 200 OK'', svalue = []\<rparr> []"
proof -
  let ?line = "bytesOf ''HTTP/1.1 200 OK'' @ [0x0d, 0x0a]"
  have line: "memBytes (chars (mem demoRestart)) 1000 (1 * 17) = ?line" "isStatusText ?line"
    "hasState demoRestart STATE_SEEN_HEADER_END" "trimEndBytes ?line = bytesOf ''HTTP/1.1 200 OK''"
    "0 \<notin> set (bytesOf ''HTTP/1.1 200 OK'')"
    by code_simp+
  have "blocks (mem (snd (beginResponse demoRestart))) = (\<lambda>q. None)"
    using line(3)
    by (auto simp: beginResponse_def releaseHeaders_def SET_defs demoRestart_def demoNative_def demoMem_def
        releaseLoop.simps cfree_def Let_def)
  then show ?thesis
    using header_callback_status_line [OF common.header_names_axioms, of demoMem demoRestart 1000 1 17 ?line
        "\<lparr>sblock = 2000, sname = bytesOf ''HTTP/1.1 200 OK'', svalue = []\<rparr>" demoEnv] line
    by (simp add: demo_blocks freshBlock_def unusedSpace_def outside_def blockSize_def)
       (simp add: demoRestart_def demoNative_def freshMap_ok bytesOf_def)
qed

definition demoKey :: jstring where
  "demoKey = map ucast (bytesOf ''AGE'')"

lemma demo_key:
  "map ucast (take (nat 3) demoKey) = bytesOf ''AGE''" "0 \<notin> set (bytesOf ''AGE'')"
  "lower (bytesOf ''AGE'') \<in> set commonHeaders" "sameName (lower (bytesOf ''AGE'')) [demoHeader] = [demoHeader]"
  "svalue demoHeader = bytesOf ''15''"
  by code_simp+

text \<open>C11: \<open>getResponseHeaders\<close> returns, and its array has exactly the right size: every name
  once, each followed by all its values in order of arrival and, but for the last, a null.\<close>

theorem getResponseHeaders_enumerates:
  assumes "header_names N" "storeInv N s st hs" "hs \<noteq> []"
    and "\<forall>n. string_ok je n" "temp_ok je" "array_ok je" "frame_ok je"
  shows "\<exists>ns. distinct ns \<and> set ns = set (map (\<lambda>h. lower (sname h)) hs) \<and>
    getResponseHeaders je s = Some (Some (butlast (concat (map (headerRow je hs) ns))), s)"
  by (rule header_names.getResponseHeaders_rows [OF assms])

definition demoJvm :: jvm_env where
  "demoJvm = \<lparr>temp_ok = True, array_ok = True, frame_ok = True, grow_ok = True, string_ok = (\<lambda>n. True),
     char_signed = True, decodeUtf = map ucast\<rparr>"

theorem getResponseHeaders_enumerates_witness:
  "\<exists>(s :: unit native) ns. distinct ns \<and> set ns = {bytesOf ''age''} \<and>
    getResponseHeaders demoJvm s = Some (Some (butlast (concat (map (headerRow demoJvm [demoHeader]) ns))), s)"
proof -
  obtain s :: "unit native" where s: "storeInv (set commonHeaders) s demoStatus [demoHeader]" using demo_stored by blast
  have "lower (sname demoHeader) = bytesOf ''age''" by code_simp
  moreover have "\<forall>n. string_ok demoJvm n" "temp_ok demoJvm" "array_ok demoJvm" "frame_ok demoJvm"
    by (simp_all add: demoJvm_def)
  ultimately show ?thesis
    using getResponseHeaders_enumerates [OF common.header_names_axioms s, of demoJvm] by auto
qed

text \<open>C24: \<open>getSpecialHeader\<close>: 0 is the status line, \<open>n\<close> the value and \<open>-n\<close> the name of
  the \<open>n\<close>-th header, and a positive position past the end is NULL.\<close>

theorem getSpecialHeader_by_position:
  assumes inv: "storeInv N s st hs"
  shows "map_option (cstring (mem s)) (getSpecialHeader 0 s) = Some (sname st) \<and>
    (\<forall>i < length hs. map_option (cstring (mem s)) (getSpecialHeader (int (Suc i)) s) = Some (svalue (hs ! i))) \<and>
    (\<forall>i < length hs. map_option (\<lambda>p. lower (cstring (mem s) p)) (getSpecialHeader (- int (Suc i)) s) =
       Some (lower (sname (hs ! i)))) \<and>
    (\<forall>n \<ge> length hs. getSpecialHeader (int (Suc n)) s = None)"
proof (intro conjI allI impI)
  show "map_option (cstring (mem s)) (getSpecialHeader 0 s) = Some (sname st)"
    using name_string [OF storeInv_blocks [OF inv]] getSpecialHeader_slots(1) [OF inv] by simp
  show "getSpecialHeader (int (Suc n)) s = None" if "length hs \<le> n" for n
    using getSpecialHeader_slots(4) [OF inv] that by simp
  fix i assume i: "i < length hs"
  then have h: "blockOk (mem s) (hs ! i)" using storeInv_blocks [OF inv] by simp
  then show "map_option (cstring (mem s)) (getSpecialHeader (int (Suc i)) s) = Some (svalue (hs ! i))"
    using value_string getSpecialHeader_slots(2) [OF inv i] by simp
  let ?same = "sameName (lower (sname (hs ! i))) hs"
  have "hs ! i \<in> set ?same" using i by (simp add: sameName_set)
  then have "hd ?same \<in> set ?same" by (metis empty_iff hd_in_set list.set(1))
  then have "hd ?same \<in> set hs" "lower (sname (hd ?same)) = lower (sname (hs ! i))" by (auto simp: sameName_set)
  then show "map_option (\<lambda>p. lower (cstring (mem s) p)) (getSpecialHeader (- int (Suc i)) s) =
       Some (lower (sname (hs ! i)))"
    using name_string [OF storeInv_blocks [OF inv]] getSpecialHeader_slots(3) [OF inv i] by simp
qed

theorem getSpecialHeader_by_position_witness:
  "\<exists>s :: unit native. map_option (cstring (mem s)) (getSpecialHeader 1 s) = Some (bytesOf ''15'') \<and>
     map_option (\<lambda>p. lower (cstring (mem s) p)) (getSpecialHeader (- 1) s) = Some (bytesOf ''age'') \<and>
     getSpecialHeader 2 s = None"
proof -
  obtain s :: "unit native" where s: "storeInv (set commonHeaders) s demoStatus [demoHeader]" using demo_stored by blast
  have h: "lower (sname demoHeader) = bytesOf ''age''" "svalue demoHeader = bytesOf ''15''" by code_simp+
  note law = getSpecialHeader_by_position [OF s]
  from law have "map_option (cstring (mem s)) (getSpecialHeader (int (Suc 0)) s) = Some (svalue ([demoHeader] ! 0))"
    by simp
  moreover from law have "map_option (\<lambda>p. lower (cstring (mem s) p)) (getSpecialHeader (- int (Suc 0)) s) =
     Some (lower (sname ([demoHeader] ! 0)))" by simp
  moreover have "getSpecialHeader (int (Suc 1)) s = None"
    by (rule law [THEN conjunct2, THEN conjunct2, THEN conjunct2, rule_format]) simp
  ultimately show ?thesis using h by (intro exI [of _ s]) simp
qed

text \<open>For a negative position \<open>getSpecialHeader\<close> reads the pair array at any index, with
  no comparison with \<open>headerPairCount\<close>.\<close>

lemma getSpecialHeader_name_unchecked:
  "getSpecialHeader (- int (Suc n)) s = Some (headerPairs s (2 * Suc n + 1))"
proof -
  have "nat (int (Suc n) * 2 + 1) = 2 * Suc n + 1" by linarith
  moreover have "\<not> - int (Suc n) \<ge> int (unat (headerPairCount s))" by linarith
  ultimately show ?thesis unfolding getSpecialHeader_def by simp
qed

text \<open>C34: \<open>releaseHeaders\<close> never frees a wrong pointer, but it frees only the first half of
  the blocks: those of the later headers stay allocated while the count is set to 0.\<close>

theorem releaseHeaders_frees_half:
  assumes inv: "storeInv N s st hs"
  shows "faults (mem (releaseHeaders s)) = faults (mem s) \<and> headerPairCount (releaseHeaders s) = 0 \<and>
    (\<forall>i \<le> length hs. blocks (mem (releaseHeaders s)) (sblock ((st # hs) ! i)) =
       (if 2 * i \<le> length hs then None else Some (blockSize ((st # hs) ! i))))"
proof (intro conjI allI impI)
  show "faults (mem (releaseHeaders s)) = faults (mem s)" by (rule releaseHeaders_blocks(1) [OF inv])
  show "headerPairCount (releaseHeaders s) = 0" by (simp add: releaseHeaders_def)
  fix i assume i: "i \<le> length hs"
  let ?k = "Suc (Suc (length hs)) div 2" and ?x = "(st # hs) ! i"
  have "distinct (map sblock (st # hs))" using inv by (simp add: storeInv_def)
  then have "sblock ?x \<in> sblock ` set (take ?k (st # hs)) \<longleftrightarrow> i < ?k"
    by (rule take_image_iff) (use i in simp)
  moreover have "i < ?k \<longleftrightarrow> 2 * i \<le> length hs" by linarith
  moreover have "blocks (mem s) (sblock ?x) = Some (blockSize ?x)"
    using storeInv_blocks [OF inv, of ?x] i by (cases i) (auto simp: blockOk_def)
  ultimately show "blocks (mem (releaseHeaders s)) (sblock ?x) = (if 2 * i \<le> length hs then None else Some (blockSize ?x))"
    unfolding releaseHeaders_blocks(2) [OF inv] by (simp only: split: if_split)
qed


theorem releaseHeaders_frees_half_witness:
  "\<exists>s :: unit native. storeInv (set commonHeaders) s demoStatus [demoHeader] \<and>
     headerPairCount (releaseHeaders s) = 0 \<and>
     blocks (mem (releaseHeaders s)) (sblock demoHeader) = Some (blockSize demoHeader)"
proof -
  obtain s :: "unit native" where s: "storeInv (set commonHeaders) s demoStatus [demoHeader]" using demo_stored by blast
  from releaseHeaders_frees_half [OF s, THEN conjunct2, THEN conjunct2, rule_format, of 1]
    releaseHeaders_frees_half [OF s, THEN conjunct2, THEN conjunct1] s
  show ?thesis by (intro exI [of _ s]) simp
qed

text \<open>C38: The longest length is cut to 16 bits: a value of 65536 bytes or more leaves a
  \<open>maxHeaderLength\<close> smaller by 65536, and converting the value then writes 65536 characters
  past the buffer of that size.\<close>

theorem maxHeaderLength_truncated:
  assumes "length str = 2 ^ 16 + k" "k < 2 ^ 16"
  shows "let s' = noteLength (length str) s in
    faults (mem (snd (headerToString je (unat (maxHeaderLength s')) str s'))) =
      faults (mem s) @ [OverflowingWrite (2 ^ 16)]"
proof -
  have "unat (of_nat (2 ^ 16 + k) :: u16) = k" using assms(2) by (simp only: unat_of_nat) simp
  moreover have "unat (maxHeaderLength s) < 2 ^ 16 + k" using unsigned_less [of "maxHeaderLength s", where 'a = nat] by simp
  ultimately show ?thesis
    using assms by (simp add: noteLength_def headerToString_def logFault_def Let_def)
qed

theorem maxHeaderLength_truncated_witness:
  "length (replicate (2 ^ 16) (0x41 :: u8)) = 2 ^ 16 + 0 \<and>
   (let s' = noteLength (2 ^ 16) demoNative in
    faults (mem (snd (headerToString demoJvm (unat (maxHeaderLength s')) (replicate (2 ^ 16) 0x41) s'))) =
      faults (mem demoNative) @ [OverflowingWrite (2 ^ 16)])"
  using maxHeaderLength_truncated [of "replicate (2 ^ 16) 0x41" 0 demoNative demoJvm] by (simp only: length_replicate) simp

text \<open>C25: \<open>intHeader\<close> with a name: the number in the last value of that name when all of it
  is consumed, the default otherwise; the lock is free afterwards.  An empty value has no number, but
  all of it is consumed: the result is then 0 and not the default.\<close>

theorem intHeader_parses_last_value:
  assumes "header_names N" "storeInv N s st hs" "busy s = 0"
    and "kb = map ucast (take (nat l) strKey)" "0 \<notin> set kb" "lower kb \<in> N"
    and "unusedSpace (mem s) stk (Suc (length kb))"
  shows "\<exists>r s'. Curl_intHeader stk rc dflt (Some strKey) l s = (r, s') \<and> storeInv N s' st hs \<and> busy s' = 0 \<and>
    (let same = sameName (lower kb) hs; v = svalue (last same)
     in r = (if same \<noteq> [] \<and> snd (strtoll v) = length v then fst (strtoll v) else dflt) \<and>
       (same \<noteq> [] \<and> v = [] \<longrightarrow> r = 0))"
proof -
  have "strtoll [] = (0, 0)" by code_simp
  then show ?thesis using intHeader_lookup [OF assms, of rc dflt] by (fastforce simp: Let_def)
qed

theorem intHeader_parses_last_value_witness:
  "\<exists>s s' :: unit native. Curl_intHeader 5000 200 (- 1) (Some demoKey) 3 s = (15, s')"
proof -
  obtain s :: "unit native" where s: "storeInv (set commonHeaders) s demoStatus [demoHeader]"
    "unusedSpace (mem s) 5000 20" "busy s = 0"
    using demo_stored by blast
  have u: "unusedSpace (mem s) 5000 (Suc (length (bytesOf ''AGE'')))"
    using s(2) by (fastforce simp: unusedSpace_def outside_def bytesOf_def)
  have "strtoll (bytesOf ''15'') = (15, 2)" "length (bytesOf ''15'') = 2" by code_simp+
  then show ?thesis
    using intHeader_parses_last_value [OF common.header_names_axioms s(1,3) demo_key(1) [symmetric] demo_key(2,3) u, of 200 "- 1"]
    by (auto simp: demo_key(4,5))
qed

section \<open>The pair array\<close>

lemma ensure_capacity_room:
  assumes "headers_ensure_capacity ok n s = (False, s')" "0 < n" "n \<le> 2 ^ 16"
  shows "n \<le> unat (headerBufSize s')" "headerPairs s' = headerPairs s" "headerPairCount s' = headerPairCount s"
proof -
  have "n * 3 div 2 < 2 ^ 32" "n \<le> n * 3 div 2" using assms(2,3) by auto
  then show "n \<le> unat (headerBufSize s')" "headerPairs s' = headerPairs s" "headerPairCount s' = headerPairCount s"
    using assms(1) by (auto simp: headers_ensure_capacity_def Let_def of_nat_inverse split: if_splits)
qed

lemma storePair_in_bounds:
  assumes "storePair ok sl old p k s = (r, s')"
  shows "{i. headerPairs s' i \<noteq> headerPairs s i} \<subseteq> {..< 2 * unat (headerBufSize s')}"
proof -
  obtain failed s1 where cap: "headers_ensure_capacity ok (unat (headerPairCount s) + 1) s = (failed, s1)" by fastforce
  show ?thesis
  proof (cases failed)
    case True
    then have "headerPairs s1 = headerPairs s"
      using cap by (auto simp: headers_ensure_capacity_def oomThrow_def throwExn_def Let_def split: if_splits)
    then show ?thesis using assms cap True by (simp add: storePair_def)
  next
    case False
    have "unat (headerPairCount s) + 1 \<le> 2 ^ 16" using unsigned_less [of "headerPairCount s", where ?'a = nat] by simp
    then have room: "unat (headerPairCount s) + 1 \<le> unat (headerBufSize s1)" "headerPairs s1 = headerPairs s"
      "headerPairCount s1 = headerPairCount s"
      using ensure_capacity_room [of ok "unat (headerPairCount s) + 1" s s1] cap False by auto
    have "headerPairs s' = (headerPairs s)(unat (headerPairCount s) * 2 := p, unat (headerPairCount s) * 2 + 1 := k)"
      "headerBufSize s' = headerBufSize s1"
      using assms cap False room(2,3) by (auto simp: storePair_def Let_def)
    then show ?thesis using room(1) by (auto split: if_splits)
  qed
qed

lemma storePair_changes:
  assumes "headerPairs t = headerPairs s"
  shows "{i. headerPairs (snd (storePair ok sl old p k t)) i \<noteq> headerPairs s i}
    \<subseteq> {..< 2 * unat (headerBufSize (snd (storePair ok sl old p k t)))}"
  using storePair_in_bounds [of ok sl old p k t "fst (storePair ok sl old p k t)"] assms by simp

lemma pairs_frame [simp]:
  "headerPairs (snd (beginResponse s)) = headerPairs s" "headerPairs (snd (linkHeader a k v s)) = headerPairs s"
  "headerPairs (noteLength n s) = headerPairs s" "headerPairs (logFault f s) = headerPairs s"
  "headerPairs (SET_SEEN_HEADER_END s) = headerPairs s"
  by (simp_all add: beginResponse_def releaseHeaders_def SET_defs linkHeader_def noteLength_def logFault_def Let_def
      split: option.split)

lemma header_callback_pairs:
  "{i. headerPairs (snd (header_callback he buffer sz nitems s)) i \<noteq> headerPairs s i}
     \<subseteq> {..< 2 * unat (headerBufSize (snd (header_callback he buffer sz nitems s)))}"
  by (simp add: header_callback_def Let_def case_prod_beta storePair_changes)

end
