(* ===== verification/RequestLaws.thy ===== *)
theory RequestLaws
  imports RequestHeaders ResponseLaws
begin

text \<open>
  The properties of the request header operations: what \<open>setHeader\<close>, \<open>addHeader\<close> and
  \<open>outHeader\<close> do to the list of lines, and the array that \<open>getRequestHeaders\<close> makes of it.
  \<open>curl_slist_append\<close> enters as documented: it appends a copy of the string.
\<close>

section \<open>The loops\<close>

fun lastMatch :: "('a \<Rightarrow> bool) \<Rightarrow> 'a list \<Rightarrow> nat option" where
  "lastMatch P [] = None"
| "lastMatch P (x # xs) =
     (case lastMatch P xs of Some i \<Rightarrow> Some (Suc i) | None \<Rightarrow> if P x then Some 0 else None)"

lemma lastMatch_None: "lastMatch P xs = None \<longleftrightarrow> (\<forall>x \<in> set xs. \<not> P x)"
  by (induction xs) (auto split: option.splits)

lemma lastMatch_Some:
  "lastMatch P xs = Some i \<longleftrightarrow> i < length xs \<and> P (xs ! i) \<and> (\<forall>j < length xs. i < j \<longrightarrow> \<not> P (xs ! j))"
proof (induction xs arbitrary: i)
  case (Cons x xs)
  have none: "lastMatch P xs = None \<longleftrightarrow> (\<forall>j < length xs. \<not> P (xs ! j))"
    unfolding lastMatch_None by (metis in_set_conv_nth)
  show ?case
  proof (cases i)
    case 0
    then show ?thesis using none by (auto simp: All_less_Suc2 split: option.splits)
  next
    case (Suc k)
    then show ?thesis using Cons.IH [of k] by (auto simp: All_less_Suc2 split: option.splits if_splits)
  qed
qed simp

lemma setHeaderLoop_value:
  "setHeaderLoop P False passed rest cnt nh =
     (passed @ rest, cnt, case lastMatch P rest of None \<Rightarrow> nh | Some i \<Rightarrow> Some (length passed + i))"
  by (induction P False passed rest cnt nh rule: setHeaderLoop.induct) (auto split: option.splits)

lemma setHeaderLoop_null:
  "passed \<noteq> [] \<Longrightarrow> setHeaderLoop P True passed rest cnt nh =
     (passed @ filter (\<lambda>d. \<not> P d) rest, cnt - of_nat (length (filter P rest)), nh)"
  by (induction P True passed rest cnt nh rule: setHeaderLoop.induct) auto

lemma setHeaderLoop_null_first:
  "setHeaderLoop P True [] hs cnt nh =
     (if hs \<noteq> [] \<and> P (hd hs) then ([], cnt, nh)
      else (filter (\<lambda>d. \<not> P d) hs, cnt - of_nat (length (filter P hs)), nh))"
  by (cases hs) (auto simp: setHeaderLoop_null)


lemma strncaseeq_all:
  assumes "\<forall>j < n. cat a j \<noteq> 0"
  shows "strncaseeq a b n i \<longleftrightarrow> (\<forall>j < n. i \<le> j \<longrightarrow> TOLOWER (cat a j) = TOLOWER (cat b j))"
  using assms
proof (induction a b n i rule: strncaseeq.induct)
  case (1 a b n i)
  show ?case
  proof (cases "i < n \<and> TOLOWER (cat a i) = TOLOWER (cat b i)")
    case True
    then have "strncaseeq a b n i = strncaseeq a b n (Suc i)" using 1(2) by (subst strncaseeq.simps) simp
    also have "\<dots> \<longleftrightarrow> (\<forall>j < n. Suc i \<le> j \<longrightarrow> TOLOWER (cat a j) = TOLOWER (cat b j))"
      using 1 True by auto
    also have "\<dots> \<longleftrightarrow> (\<forall>j < n. i \<le> j \<longrightarrow> TOLOWER (cat a j) = TOLOWER (cat b j))"
      using True by (metis Suc_leI le_SucI le_neq_implies_less Suc_leD)
    finally show ?thesis .
  qed (subst strncaseeq.simps, auto intro!: exI [of _ i])
qed

text \<open>A line that starts with the name, whatever follows.\<close>

definition startsWith :: "u8 list \<Rightarrow> u8 list \<Rightarrow> bool" where
  "startsWith name d \<longleftrightarrow> lower (take (length name) d) = lower name"

lemma startsWith_nth:
  assumes "0 \<notin> set name"
  shows "startsWith name d \<longleftrightarrow> (\<forall>j < length name. TOLOWER (name ! j) = TOLOWER (cat d j))"
proof
  assume s: "startsWith name d"
  then have len: "length name \<le> length d" unfolding startsWith_def by (metis length_lower length_take min.absorb_iff1 min.commute)
  show "\<forall>j < length name. TOLOWER (name ! j) = TOLOWER (cat d j)"
  proof (intro allI impI)
    fix j assume j: "j < length name"
    then have "lower name ! j = lower (take (length name) d) ! j" using s by (simp add: startsWith_def)
    then show "TOLOWER (name ! j) = TOLOWER (cat d j)" using j len by (simp add: cat_def)
  qed
next
  assume a: "\<forall>j < length name. TOLOWER (name ! j) = TOLOWER (cat d j)"
  have "j < length d" if "j < length name" for j
    using a that assms by (metis TOLOWER_eq_0 cat_def nth_mem)
  then have "length name \<le> length d" by (meson less_irrefl not_le)
  then show "startsWith name d" unfolding startsWith_def
    using a by (intro nth_equalityI) (auto simp: cat_def)
qed

lemma strncaseeq_startsWith:
  assumes "0 \<notin> set name"
  shows "strncaseeq (name @ rest) d (length name) 0 \<longleftrightarrow> startsWith name d"
proof -
  have at: "cat (name @ rest) j = name ! j" if "j < length name" for j using that by (simp add: cat_def nth_append)
  then have "\<forall>j < length name. cat (name @ rest) j \<noteq> 0" using assms nth_mem by force
  from strncaseeq_all [OF this, of d 0] show ?thesis using at by (simp add: startsWith_nth [OF assms])
qed

section \<open>Operations on the list\<close>

definition asciiBytes :: "jstring \<Rightarrow> u8 list" where
  "asciiBytes k = map ucast k"

text \<open>The line that is sent for a name and a value.\<close>

definition headerLine :: "jstring \<Rightarrow> jstring \<Rightarrow> u8 list" where
  "headerLine k v = asciiBytes k @ [if v = [] then 0x3b else 0x3a] @ asciiBytes v"

lemma jbytes_all [simp]: "jbytes k (int (length k)) = asciiBytes k"
  by (simp add: jbytes_def asciiBytes_def)

lemma length_asciiBytes [simp]: "length (asciiBytes k) = length k"
  by (simp add: asciiBytes_def)

lemma busy_same: "busy s = 0 \<Longrightarrow> s\<lparr>busy := 0\<rparr> = s"
  by (cases s) simp

lemma setHeader_value:
  assumes "busy s = 0" "buffer_ok re" "entry_ok re" "0 \<notin> set (asciiBytes k)"
  shows "Curl_setHeader re k (Some v) (int (length k)) (int (length v)) s =
    (case lastMatch (startsWith (asciiBytes k)) (outHeaders s) of
       Some i \<Rightarrow> s\<lparr>outHeaders := (outHeaders s)[i := headerLine k v]\<rparr>
     | None \<Rightarrow> s\<lparr>outHeaders := outHeaders s @ [headerLine k v], outHeaderCount := outHeaderCount s + 1\<rparr>)"
proof -
  have P: "strncaseeq (asciiBytes k @ x) d (length k) 0 = startsWith (asciiBytes k) d" for x d
    using strncaseeq_startsWith [OF assms(4), of x d] by simp
  have "s\<lparr>busy := 0\<rparr> = s" by (rule busy_same [OF assms(1)])
  then show ?thesis
    using assms(1-3) P
    by (cases s) (auto simp: Curl_setHeader_def ACQUIRE_def RELEASE_def setHeaderLoop_value noteWrites_def Let_def headerLine_def
        asciiBytes_def split: option.splits)
qed

lemma setHeader_null:
  assumes "busy s = 0" "buffer_ok re" "0 \<notin> set (asciiBytes k)"
    and append: "\<And>l x. slist_append re l x = Some (l @ [x])"
  shows "Curl_setHeader re k None (int (length k)) (- 1) s =
    (let hs = outHeaders s; P = startsWith (asciiBytes k); stub = asciiBytes k @ [0x3a] in
     logFault (OverflowingWrite 1)
      (if hs \<noteq> [] \<and> P (hd hs) then s\<lparr>outHeaders := [stub]\<rparr>
       else s\<lparr>outHeaders := filter (\<lambda>d. \<not> P d) hs @ [stub],
              outHeaderCount := outHeaderCount s - of_nat (length (filter P hs))\<rparr>))"
proof -
  have P: "strncaseeq (asciiBytes k @ x) d (length k) 0 = startsWith (asciiBytes k) d" for x d
    using strncaseeq_startsWith [OF assms(3), of x d] by simp
  have stub: "cstr (asciiBytes k @ [0x3a]) = asciiBytes k @ [0x3a]"
    using assms(3) unfolding cstr_def by (subst takeWhile_eq_all_conv) auto
  show ?thesis
    using assms(1,2) P stub append
    by (cases s) (auto simp: Curl_setHeader_def ACQUIRE_def RELEASE_def setHeaderLoop_null_first noteWrites_def logFault_def Let_def)
qed

lemma addHeader_appends:
  assumes "busy s = 0" "buffer_ok re" "0 \<notin> set (headerLine k v)"
    and append: "\<And>l x. slist_append re l x = Some (l @ [x])"
  shows "Curl_addHeader re k v (int (length k)) (int (length v)) s =
    s\<lparr>outHeaders := outHeaders s @ [headerLine k v], outHeaderCount := outHeaderCount s + 1\<rparr>"
proof -
  have "cstr (headerLine k v) = headerLine k v"
    using assms(3) unfolding cstr_def by (subst takeWhile_eq_all_conv) auto
  then show ?thesis
    using assms(1,2) append
    by (cases s) (simp add: Curl_addHeader_def ACQUIRE_def RELEASE_def noteWrites_def Let_def headerLine_def)
qed

text \<open>A line for exactly this name.\<close>

definition lineFor :: "u8 list \<Rightarrow> u8 list \<Rightarrow> bool" where
  "lineFor name d \<longleftrightarrow> startsWith name d \<and> cat d (length name) \<in> {0x3a, 0x3b}"

lemma outHeaderLoop_find:
  assumes "0 \<notin> set name"
  shows "outHeaderLoop name (length name) hs =
    map_option (\<lambda>d. cstr (drop (Suc (length name)) d)) (find (lineFor name) hs)"
  using strncaseeq_startsWith [OF assms, of "[]"]
  by (induction hs) (auto simp: lineFor_def)

lemma outHeader_first:
  assumes "busy s = 0" "buffer_ok re" "outHeaderCount s \<noteq> 0" "outHeaders s \<noteq> []" "0 \<notin> set (asciiBytes k)"
    and "string_ok je 0"
  shows "Curl_outHeader re je k (int (length k)) s =
    (map_option (\<lambda>d. decodeUtf je (cstr (drop (Suc (length k)) d))) (find (lineFor (asciiBytes k)) (outHeaders s)), s)"
  using assms(1-4,6) outHeaderLoop_find [OF assms(5), of "outHeaders s"]
  by (cases s) (simp add: Curl_outHeader_def ACQUIRE_def RELEASE_def split: option.split)

lemma lineFor_headerLine: "lineFor (asciiBytes k) (headerLine k v)"
  by (simp add: lineFor_def startsWith_def headerLine_def cat_def nth_append)

section \<open>Reading all request headers\<close>

definition requestRow :: "jvm_env \<Rightarrow> u8 list \<Rightarrow> jstring option list" where
  "requestRow je d =
     (let n = length (beforeColon d); k = (if n < length d then n else length d - 1)
      in [Some (jstr je (take k d)), Some (jstr je (drop (Suc k) d))])"

definition isStub :: "u8 list \<Rightarrow> bool" where
  "isStub d \<longleftrightarrow> Suc (length (beforeColon d)) = length d"


lemma requestKeyLen_cases:
  assumes "0 \<notin> set d" "d \<noteq> []"
  shows "requestKeyLen d = (if isStub d then None
    else Some (let n = length (beforeColon d) in if n < length d then n else length d - 1))"
proof -
  let ?n = "length (beforeColon d)"
  have le: "?n \<le> length d" unfolding beforeColon_def by (rule length_takeWhile_le)
  have "cat d (Suc ?n) = 0 \<longleftrightarrow> Suc ?n = length d" if "?n < length d"
    using that assms(1) by (auto simp: cat_def) (metis nth_mem)
  then show ?thesis
    using le by (auto simp: requestKeyLen_def colonAt_def isStub_def beforeColon_def Let_def)
qed

lemma cstr_id: "0 \<notin> set d \<Longrightarrow> cstr d = d"
  unfolding cstr_def by (subst takeWhile_eq_all_conv) auto

lemma requestCapacity_fits:
  assumes "grow_ok je" "4096 \<le> cap"
  shows "4096 \<le> requestCapacity je cap k v" "k \<le> requestCapacity je cap k v div 2" "v \<le> requestCapacity je cap k v div 2"
  using assms by (auto simp: requestCapacity_def Let_def)

lemma putString_filled:
  assumes "string_ok je (length pre)" "length str \<le> capacity" "length pre < cap"
  shows "putString je capacity str (length pre) (filled cap pre) s = (Some (filled cap (pre @ [Some (jstr je str)])), s)"
  using assms by (simp add: putString_def headerToString_fits setElement_filled)

lemma requestLoop_rows:
  assumes je: "\<forall>n. string_ok je n" "grow_ok je" and "\<forall>d \<in> set ls. 0 \<notin> set d \<and> d \<noteq> []"
    and "4096 \<le> cap" "length pre = 2 * n" "n \<le> j"
  shows "requestLoop je (2 * int cnt) (2 * int j) cap ls (filled (2 * cnt) pre) n s =
    (Some (filled (2 * cnt) (pre @ concat (map (requestRow je) (filter (\<lambda>d. \<not> isStub d) (take (cnt - j) ls))))), s)"
  using assms(3-6)
proof (induction ls arbitrary: cap pre n j)
  case (Cons d ls)
  have d: "0 \<notin> set d" "d \<noteq> []" "cstr d = d" using Cons.prems(1) cstr_id by auto
  have next_i: "2 * int j + 2 = 2 * int (Suc j)" by simp
  show ?case
  proof (cases "j < cnt")
    case False
    then show ?thesis by simp
  next
    case True
    then have tk: "take (cnt - j) (d # ls) = d # take (cnt - Suc j) ls" by (simp add: Suc_diff_Suc [symmetric])
    show ?thesis
    proof (cases "isStub d")
      case stub: True
      have "requestLoop je (2 * int cnt) (2 * int j + 2) cap ls (filled (2 * cnt) pre) n s =
        (Some (filled (2 * cnt) (pre @ concat (map (requestRow je) (filter (\<lambda>d. \<not> isStub d) (take (cnt - Suc j) ls))))), s)"
        unfolding next_i using Cons.prems by (intro Cons.IH) auto
      then show ?thesis
        using stub True d by (simp add: requestKeyLen_cases tk)
    next
      case False
      define k where "k = (let n = length (beforeColon d) in if n < length d then n else length d - 1)"
      define cap' where "cap' = requestCapacity je cap k (length d - Suc k)"
      have k: "requestKeyLen d = Some k" "k < length d" using False d by (auto simp: requestKeyLen_cases k_def Let_def)
      note fits = requestCapacity_fits [OF je(2) Cons.prems(2), where k = k and v = "length d - Suc k", folded cap'_def]
      define pre' where "pre' = pre @ requestRow je d"
      have row: "requestRow je d = [Some (jstr je (take k d)), Some (jstr je (drop (Suc k) d))]"
        by (simp add: requestRow_def k_def Let_def)
      have put: "putString je (cap' div 2) (take k d) (n * 2) (filled (2 * cnt) pre) s =
          (Some (filled (2 * cnt) (pre @ [Some (jstr je (take k d))])), s)"
        using putString_filled [of je pre "take k d" "cap' div 2" "2 * cnt" s] je Cons.prems(3,4) True fits
        by (simp add: mult.commute)
      have tl: "take (length d - Suc k) (drop (k + 1) d) = drop (Suc k) d" by simp
      have put': "putString je (cap' div 2) (take (length d - Suc k) (drop (k + 1) d)) (n * 2 + 1)
          (filled (2 * cnt) (pre @ [Some (jstr je (take k d))])) s = (Some (filled (2 * cnt) pre'), s)"
        unfolding tl
        using putString_filled [of je "pre @ [Some (jstr je (take k d))]" "drop (Suc k) d" "cap' div 2" "2 * cnt" s]
          je Cons.prems(3,4) True fits by (simp add: mult.commute pre'_def row)
      have "requestLoop je (2 * int cnt) (2 * int j + 2) cap' ls (filled (2 * cnt) pre') (n + 1) s =
        (Some (filled (2 * cnt) (pre' @ concat (map (requestRow je) (filter (\<lambda>d. \<not> isStub d) (take (cnt - Suc j) ls))))), s)"
        unfolding next_i using Cons.prems fits(1) by (intro Cons.IH) (auto simp: pre'_def row)
      then show ?thesis
        using False True d k(1) put put' by (simp add: tk cap'_def [symmetric] pre'_def Let_def)
    qed
  qed
qed simp

lemma getRequestHeaders_rows:
  assumes je: "\<forall>n. string_ok je n" "grow_ok je" "temp_ok je" "array_ok je" "frame_ok je"
    and ls: "\<forall>d \<in> set (outHeaders s). 0 \<notin> set d \<and> d \<noteq> []" "outHeaders s \<noteq> []"
    and cnt: "unat (outHeaderCount s) = n" "0 < n"
  shows "getRequestHeaders je s =
    (Some (filled (2 * n) (concat (map (requestRow je) (filter (\<lambda>d. \<not> isStub d) (take n (outHeaders s)))))), s)"
proof -
  have "replicate (nat (int n * 2)) None = filled (2 * n) []" by (simp add: filled_def nat_mult_distrib mult.commute)
  then show ?thesis
    using requestLoop_rows [OF je(1,2) ls(1), of "4 * 1024" "[]" 0 0 n s] assms
    by (simp add: getRequestHeaders_def Let_def mult.commute)
qed


section \<open>Properties\<close>

text \<open>C21: \<open>setHeader\<close> with a value: the last line that starts with the name, in any case of the
  letters, is overwritten in place; when there is none the line is appended and counted.  Nothing
  else changes, no byte is written out of bounds and the lock is free afterwards.\<close>

theorem setHeader_sets_last_match:
  assumes "busy s = 0" "buffer_ok re" "entry_ok re" "0 \<notin> set (asciiBytes k)"
  shows "Curl_setHeader re k (Some v) (int (length k)) (int (length v)) s =
    (case lastMatch (startsWith (asciiBytes k)) (outHeaders s) of
       Some i \<Rightarrow> s\<lparr>outHeaders := (outHeaders s)[i := headerLine k v]\<rparr>
     | None \<Rightarrow> s\<lparr>outHeaders := outHeaders s @ [headerLine k v], outHeaderCount := outHeaderCount s + 1\<rparr>)"
  by (rule setHeader_value [OF assms])

definition demoReq :: req_env where
  "demoReq = \<lparr>buffer_ok = True, entry_ok = True, slist_append = (\<lambda>l x. Some (l @ [x]))\<rparr>"

definition jtext :: "string \<Rightarrow> jstring" where
  "jtext x = map ucast (bytesOf x)"

definition demoRequest :: "string list \<Rightarrow> u16 \<Rightarrow> unit native" where
  "demoRequest ls n = demoNative\<lparr>outHeaders := map bytesOf ls, outHeaderCount := n\<rparr>"

lemma demoRequest_simps [simp]:
  "busy (demoRequest ls n) = 0" "outHeaders (demoRequest ls n) = map bytesOf ls" "outHeaderCount (demoRequest ls n) = n"
  "buffer_ok demoReq" "entry_ok demoReq" "slist_append demoReq l x = Some (l @ [x])"
  "\<forall>n. string_ok demoJvm n" "grow_ok demoJvm" "temp_ok demoJvm" "array_ok demoJvm" "frame_ok demoJvm"
  by (simp_all add: demoRequest_def demoNative_def demoReq_def demoJvm_def)

theorem setHeader_sets_last_match_witness:
  "outHeaders (Curl_setHeader demoReq (jtext ''x-a'') (Some (jtext ''2'')) 3 1
     (demoRequest [''X-A:0'', ''X-A:1'', ''B:3''] 3)) = map bytesOf [''X-A:0'', ''x-a:2'', ''B:3'']"
proof -
  have c: "0 \<notin> set (asciiBytes (jtext ''x-a''))" "length (jtext ''x-a'') = 3" "length (jtext ''2'') = 1"
    "lastMatch (startsWith (asciiBytes (jtext ''x-a''))) (map bytesOf [''X-A:0'', ''X-A:1'', ''B:3'']) = Some 1"
    "(map bytesOf [''X-A:0'', ''X-A:1'', ''B:3''])[1 := headerLine (jtext ''x-a'') (jtext ''2'')] =
       map bytesOf [''X-A:0'', ''x-a:2'', ''B:3'']"
    by code_simp+
  show ?thesis
    using setHeader_sets_last_match [of "demoRequest [''X-A:0'', ''X-A:1'', ''B:3''] 3" demoReq "jtext ''x-a''" "jtext ''2''"] c
    by simp
qed

text \<open>C22: \<open>addHeader\<close> followed by \<open>outHeader\<close> for the same name: the value just added when no
  earlier line has that name, and the value of the first such line otherwise.\<close>

theorem addHeader_outHeader:
  assumes free: "busy s = 0" and ok: "buffer_ok re" and room: "unat (outHeaderCount s) + 1 < 2 ^ 16"
    and bytes: "0 \<notin> set (headerLine k v)"
    and append: "\<forall>l x. slist_append re l x = Some (l @ [x])" and str: "string_ok je 0"
  shows "fst (Curl_outHeader re je k (int (length k)) (Curl_addHeader re k v (int (length k)) (int (length v)) s)) =
    Some (decodeUtf je (case find (lineFor (asciiBytes k)) (outHeaders s) of
      Some d \<Rightarrow> cstr (drop (Suc (length k)) d) | None \<Rightarrow> asciiBytes v))"
proof -
  have nz: "0 \<notin> set (asciiBytes k)" "0 \<notin> set (asciiBytes v)" using bytes by (auto simp: headerLine_def)
  let ?s = "s\<lparr>outHeaders := outHeaders s @ [headerLine k v], outHeaderCount := outHeaderCount s + 1\<rparr>"
  have add: "Curl_addHeader re k v (int (length k)) (int (length v)) s = ?s"
    using addHeader_appends [OF free ok bytes] append by simp
  have "unat (outHeaderCount s + 1) = Suc (unat (outHeaderCount s))"
    using room by (simp add: unat_word_ariths)
  then have "outHeaderCount ?s \<noteq> 0" by auto
  moreover have "find (lineFor (asciiBytes k)) (outHeaders ?s) =
      (case find (lineFor (asciiBytes k)) (outHeaders s) of Some d \<Rightarrow> Some d | None \<Rightarrow> Some (headerLine k v))"
    using lineFor_headerLine [of k v] by (simp add: find_snoc split: option.split)
  moreover have "drop (Suc (length k)) (headerLine k v) = asciiBytes v" by (simp add: headerLine_def)
  ultimately show ?thesis
    using outHeader_first [of ?s re k je] free ok nz str unfolding add
    by (simp add: cstr_id split: option.split)
qed

theorem addHeader_outHeader_witness:
  "fst (Curl_outHeader demoReq demoJvm (jtext ''A'') 1 (Curl_addHeader demoReq (jtext ''A'') (jtext ''2'') 1 1
     (demoRequest [''a:1''] 1))) = Some (jtext ''1'')"
proof -
  have c: "0 \<notin> set (headerLine (jtext ''A'') (jtext ''2''))" "length (jtext ''A'') = 1" "length (jtext ''2'') = 1"
    "find (lineFor (asciiBytes (jtext ''A''))) (map bytesOf [''a:1'']) = Some (bytesOf ''a:1'')"
    "decodeUtf demoJvm (cstr (drop (Suc 1) (bytesOf ''a:1''))) = jtext ''1''"
    by code_simp+
  show ?thesis
    using addHeader_outHeader [of "demoRequest [''a:1''] 1" demoReq "jtext ''A''" "jtext ''2''" demoJvm] c by simp
qed

text \<open>C39: \<open>setHeader\<close> with a null value, which Java passes with length -1, writes one byte past
  its buffer.  It appends the stub that disables the header after removing the lines that start
  with the name; but when the first line is one of them the whole list is dropped and the count
  keeps its value.\<close>

theorem setHeader_null_overflows:
  assumes "busy s = 0" "buffer_ok re" "0 \<notin> set (asciiBytes k)"
    and "\<forall>l x. slist_append re l x = Some (l @ [x])"
  shows "Curl_setHeader re k None (int (length k)) (- 1) s =
    (let hs = outHeaders s; P = startsWith (asciiBytes k); stub = asciiBytes k @ [0x3a] in
     logFault (OverflowingWrite 1)
      (if hs \<noteq> [] \<and> P (hd hs) then s\<lparr>outHeaders := [stub]\<rparr>
       else s\<lparr>outHeaders := filter (\<lambda>d. \<not> P d) hs @ [stub],
              outHeaderCount := outHeaderCount s - of_nat (length (filter P hs))\<rparr>))"
  by (rule setHeader_null) (use assms in auto)

theorem setHeader_null_overflows_witness:
  "outHeaders (Curl_setHeader demoReq (jtext ''A'') None 1 (- 1) (demoRequest [''A:1'', ''B:2''] 2)) = [bytesOf ''A:''] \<and>
   outHeaders (Curl_setHeader demoReq (jtext ''A'') None 1 (- 1) (demoRequest [''B:2'', ''A:1''] 2)) = map bytesOf [''B:2'', ''A:'']"
proof -
  have c: "0 \<notin> set (asciiBytes (jtext ''A''))" "length (jtext ''A'') = 1"
    "startsWith (asciiBytes (jtext ''A'')) (bytesOf ''A:1'')" "\<not> startsWith (asciiBytes (jtext ''A'')) (bytesOf ''B:2'')"
    "asciiBytes (jtext ''A'') @ [0x3a] = bytesOf ''A:''"
    by code_simp+
  show ?thesis
    using setHeader_null_overflows [of "demoRequest [''A:1'', ''B:2''] 2" demoReq "jtext ''A''"]
      setHeader_null_overflows [of "demoRequest [''B:2'', ''A:1''] 2" demoReq "jtext ''A''"] c
    by (simp add: logFault_def Let_def)
qed

text \<open>C23: \<open>getRequestHeaders\<close>: the array has room for \<open>outHeaderCount\<close> names and values, and
  holds those of the first \<open>outHeaderCount\<close> lines that are not stubs, in order; no character is
  written out of bounds, however long the lines are, as long as the buffer can be enlarged.  A stub takes the place of a header.\<close>

theorem getRequestHeaders_lists:
  assumes "\<forall>n. string_ok je n" "grow_ok je" "temp_ok je" "array_ok je" "frame_ok je"
    and "\<forall>d \<in> set (outHeaders s). 0 \<notin> set d \<and> d \<noteq> []" "outHeaders s \<noteq> []"
    and "unat (outHeaderCount s) = n" "0 < n"
  shows "getRequestHeaders je s =
    (Some (filled (2 * n) (concat (map (requestRow je) (filter (\<lambda>d. \<not> isStub d) (take n (outHeaders s)))))), s)"
  by (rule getRequestHeaders_rows [OF assms])

theorem getRequestHeaders_lists_witness:
  "fst (getRequestHeaders demoJvm (demoRequest [''A:1'', ''Expect:'', ''B:2''] 2)) =
     Some [Some (jtext ''A''), Some (jtext ''1''), None, None]"
proof -
  have c: "\<forall>d \<in> set (map bytesOf [''A:1'', ''Expect:'', ''B:2'']). 0 \<notin> set d \<and> d \<noteq> []"
    "filled (2 * 2) (concat (map (requestRow demoJvm) (filter (\<lambda>d. \<not> isStub d)
       (take 2 (map bytesOf [''A:1'', ''Expect:'', ''B:2'']))))) = [Some (jtext ''A''), Some (jtext ''1''), None, None]"
    by code_simp+
  show ?thesis
    using getRequestHeaders_lists [of demoJvm "demoRequest [''A:1'', ''Expect:'', ''B:2''] 2" 2] c by simp
qed

end
