(* ===== verification/CurlApi.thy ===== *)
theory CurlApi
  imports HeaderStore
begin

text \<open>
  What the native code needs of libcurl and of the operating system, as parameters.  A call into
  curl that may call back is a \<open>curl_run\<close>: a finite tree of the callbacks curl makes, each with
  the rest of the run as a function of what the callback answers.  The tree is the same for every
  callback that is installed; which one answers is decided by the options on the handle.
\<close>

section \<open>Result codes\<close>

datatype CURLcode =
    CURLE_OK | CURLE_UNSUPPORTED_PROTOCOL | CURLE_URL_MALFORMAT | CURLE_COULDNT_RESOLVE_PROXY
  | CURLE_COULDNT_RESOLVE_HOST | CURLE_COULDNT_CONNECT | CURLE_WEIRD_SERVER_REPLY | CURLE_HTTP2
  | CURLE_WRITE_ERROR | CURLE_OUT_OF_MEMORY | CURLE_SSL_CONNECT_ERROR | CURLE_ABORTED_BY_CALLBACK
  | CURLE_INTERFACE_FAILED | CURLE_SEND_ERROR | CURLE_RECV_ERROR | CURLE_SEND_FAIL_REWIND
  | CURLE_SSL_SHUTDOWN_FAILED | CURLE_HTTP2_STREAM | CURLE_OTHER nat

datatype CURLMcode = CURLM_OK | CURLM_OUT_OF_MEMORY | CURLM_OTHER int

text \<open>A message of \<open>curl_multi_info_read\<close>: \<open>CURLMSG_DONE\<close> with its result, or another.\<close>

datatype CURLMsg = CURLMSG_DONE CURLcode | CURLMSG_OTHER

text \<open>Both pause codes have this value; \<open>read_callback\<close> returns the one meant for the other direction.\<close>

definition CURL_READFUNC_PAUSE :: nat where "CURL_READFUNC_PAUSE = 0x10000001"
definition CURL_WRITEFUNC_PAUSE :: nat where "CURL_WRITEFUNC_PAUSE = 0x10000001"
definition CURL_SEEKFUNC_CANTSEEK :: nat where "CURL_SEEKFUNC_CANTSEEK = 2"

section \<open>Runs of curl\<close>

text \<open>
  \<open>AskData size nitems\<close>: the read callback is asked for upload data and answers with the bytes it
  put into the buffer.  \<open>GiveData data\<close>: the write callback gets a piece of the response body.
  \<open>GiveHeader he p line\<close>: curl has stored the header line at \<open>p\<close> and calls the header callback.
  \<open>SetError\<close>: curl writes into the error buffer.
\<close>

datatype ('r, 'w) curl_run =
    Finished 'r 'w
  | AskData nat nat "nat \<times> u8 list \<Rightarrow> ('r, 'w) curl_run"
  | GiveData "u8 list" "nat \<Rightarrow> ('r, 'w) curl_run"
  | GiveHeader hdr_env addr "u8 list" "nat \<Rightarrow> ('r, 'w) curl_run"
  | SetError "u8 list" "('r, 'w) curl_run"

record 'w curl_api =
  curl_multi_perform :: "'w \<Rightarrow> (CURLMcode \<times> int, 'w) curl_run"
  curl_easy_pause_recv :: "'w \<Rightarrow> (CURLcode, 'w) curl_run"
  curl_easy_pause_send :: "'w \<Rightarrow> (CURLcode, 'w) curl_run"
  curl_multi_timeout :: "'w \<Rightarrow> int \<times> 'w"
  curl_multi_wait :: "int \<Rightarrow> 'w \<Rightarrow> (CURLMcode \<times> int) \<times> 'w"
  curl_multi_info_read :: "'w \<Rightarrow> (CURLMsg option \<times> int) \<times> 'w"
  curl_multi_add_handle :: "'w \<Rightarrow> 'w"
  curl_multi_remove_handle :: "'w \<Rightarrow> 'w"
  curl_effective_url :: "'w \<Rightarrow> u8 list option"
  clock_gettime :: "'w \<Rightarrow> (int \<times> int) \<times> 'w"
  read_flag :: "int \<Rightarrow> 'w \<Rightarrow> bool \<times> 'w"
  easy_strerror :: "CURLcode \<Rightarrow> u8 list"
  multi_strerror :: "CURLMcode \<Rightarrow> u8 list"
  location_key :: addr

section \<open>Errors\<close>

text \<open>The description: what curl left in the error buffer without its newline, or the code's text.\<close>

definition errorDesc :: "u8 list \<Rightarrow> 'w native \<Rightarrow> u8 list \<times> 'w native" where
  "errorDesc strerror s =
     (let buf = errorBuffer s in
      if buf \<noteq> [] then
        (let buf' = (if last buf = 0x0a then butlast buf else buf) in (buf', s\<lparr>errorBuffer := buf'\<rparr>))
      else (strerror, s))"

definition handleMultiError :: "'w curl_api \<Rightarrow> CURLMcode \<Rightarrow> 'w native \<Rightarrow> 'w native" where
  "handleMultiError api lastError s =
     (case errorDesc (multi_strerror api lastError) s of (desc, s1) \<Rightarrow>
      if pending s1 then s1
      else if lastError = CURLM_OUT_OF_MEMORY then oomThrow s1
      else throwExn (ThrowIOException desc) s1)"

text \<open>The \<open>switch\<close> of \<open>handleEasyError\<close>; \<open>None\<close> is its default branch.\<close>

fun easyErrorType :: "CURLcode \<Rightarrow> error_type option" where
  "easyErrorType CURLE_RECV_ERROR = Some ERROR_SOCKET_MYSTERY"
| "easyErrorType CURLE_SEND_ERROR = Some ERROR_SOCKET_MYSTERY"
| "easyErrorType CURLE_COULDNT_CONNECT = Some ERROR_SOCKET_CONNECT_REFUSED"
| "easyErrorType CURLE_WEIRD_SERVER_REPLY = Some ERROR_NOT_EVEN_HTTP"
| "easyErrorType CURLE_SSL_CONNECT_ERROR = Some ERROR_SSL_FAIL"
| "easyErrorType CURLE_SSL_SHUTDOWN_FAILED = Some ERROR_SSL_FAIL"
| "easyErrorType CURLE_URL_MALFORMAT = Some ERROR_BAD_URL"
| "easyErrorType CURLE_UNSUPPORTED_PROTOCOL = Some ERROR_BAD_URL"
| "easyErrorType CURLE_COULDNT_RESOLVE_HOST = Some ERROR_DNS_FAILURE"
| "easyErrorType CURLE_COULDNT_RESOLVE_PROXY = Some ERROR_DNS_FAILURE"
| "easyErrorType CURLE_INTERFACE_FAILED = Some ERROR_INTERFACE_BINDING_FAILED"
| "easyErrorType CURLE_SEND_FAIL_REWIND = Some ERROR_RETRY_IMPOSSIBLE"
| "easyErrorType CURLE_HTTP2 = Some ERROR_PROTOCOL"
| "easyErrorType CURLE_HTTP2_STREAM = Some ERROR_PROTOCOL"
| "easyErrorType CURLE_OUT_OF_MEMORY = Some ERROR_OOM"
| "easyErrorType _ = None"

definition handleEasyError :: "'w curl_api \<Rightarrow> CURLcode \<Rightarrow> 'w native \<Rightarrow> 'w native" where
  "handleEasyError api lastError s =
     (if lastError = CURLE_WRITE_ERROR \<and> \<not> hasState s STATE_DO_INPUT then s
      else case errorDesc (easy_strerror api lastError) s of (desc, s1) \<Rightarrow>
        if pending s1 then s1
        else case easyErrorType lastError of
               Some ERROR_OOM \<Rightarrow> oomThrow s1
             | Some t \<Rightarrow> throwOther desc t s1
             | None \<Rightarrow> throwExn (ThrowIOException desc) s1)"

end
