(* ===== verification/Callbacks.thy ===== *)
theory Callbacks
  imports CurlApi
begin

text \<open>
  The callbacks through which the body of a request and of a response goes.  A callback takes
  what curl passes and returns the number it answers to curl; \<open>read_callback\<close> also returns the
  bytes it stored in curl's buffer.  C's \<open>int\<close> variables are integers here: buffers of curl are
  far below \<open>2^31\<close> bytes.
\<close>

section \<open>Sending\<close>

text \<open>The bytes to send: from the array, or the single byte that \<open>write\<close> passed as offset.\<close>

definition takeOutput :: "nat \<Rightarrow> 'w native \<Rightarrow> int \<times> u8 list \<times> 'w native" where
  "takeOutput capacity s =
     (case bufferForSending s of
        Some buf \<Rightarrow>
          (let available = countToWrite s;
               written = if available > int capacity then int capacity else available;
               (data, s1) = array_read buf written s
           in (written, data, s1\<lparr>writeOffset := writeOffset s1 + written\<rparr>))
      | None \<Rightarrow> (1, [of_int (writeOffset s)], s))"

definition noteUploaded :: "int \<Rightarrow> 'w native \<Rightarrow> 'w native" where
  "noteUploaded written s =
     (if uploadGoal s \<noteq> 0 then
        (let s1 = s\<lparr>uploadedCount := uploadedCount s + of_int written\<rparr>
         in if uploadedCount s1 \<ge> uploadGoal s1 then SET_SEND_PAUSED s1 else s1)
      else s)"

definition read_callback :: "nat \<Rightarrow> nat \<Rightarrow> 'w native \<Rightarrow> (nat \<times> u8 list) \<times> 'w native" where
  "read_callback sz nitems s =
     (if hasState s STATE_DONE_SENDING then ((0, []), SET_SEND_PAUSED s)
      else if countToWrite s = 0 then ((CURL_WRITEFUNC_PAUSE, []), SET_SEND_PAUSED s)
      else case takeOutput (sz * nitems) s of (written, data, s1) \<Rightarrow>
        (let s2 = noteUploaded written s1
         in ((nat written, data), s2\<lparr>countToWrite := countToWrite s2 - written\<rparr>)))"

definition eof_callback :: "'w native \<Rightarrow> (nat \<times> u8 list) \<times> 'w native" where
  "eof_callback s = ((0, []), SET_SEND_PAUSED s)"

section \<open>Receiving\<close>

definition connect_and_pause_callback :: "'w native \<Rightarrow> nat \<times> 'w native" where
  "connect_and_pause_callback s = (CURL_READFUNC_PAUSE, SET_RECV_PAUSED s)"

definition abort_receive_callback :: "'w native \<Rightarrow> nat \<times> 'w native" where
  "abort_receive_callback s = (0, s)"

definition skip_receive_callback :: "nat \<Rightarrow> nat \<Rightarrow> 'w native \<Rightarrow> nat \<times> 'w native" where
  "skip_receive_callback sz nitems s = (sz * nitems, s)"

definition seek_callback :: nat where
  "seek_callback = CURL_SEEKFUNC_CANTSEEK"

text \<open>
  Storing received bytes: into the array, or a single byte into \<open>readOffset\<close>, where it is
  promoted from \<open>char\<close>.
\<close>

definition putInput :: "bool \<Rightarrow> u8 list \<Rightarrow> 'w native \<Rightarrow> int \<times> 'w native" where
  "putInput is_signed data s =
     (case bufferForReceiving s of
        Some buf \<Rightarrow>
          (let available = countToRead s;
               read = if available > int (length data) then int (length data) else available;
               s1 = array_write buf data read s
           in (read, s1\<lparr>readOffset := readOffset s1 + read\<rparr>))
      | None \<Rightarrow> (1, s\<lparr>readOffset := sint (promote_char is_signed (hd data))\<rparr>))"

definition write_callback :: "bool \<Rightarrow> u8 list \<Rightarrow> 'w native \<Rightarrow> nat \<times> 'w native" where
  "write_callback is_signed data s =
     (let pending = int (length data) in
      if countToRead s = 0 then (CURL_READFUNC_PAUSE, SET_RECV_PAUSED s)
      else if readOverflow s \<ge> pending
      then (length data, s\<lparr>readOverflow := readOverflow s - pending\<rparr>)
      else
        let pendingReal = pending - readOverflow s;
            (read, s1) = putInput is_signed (drop (nat (readOverflow s)) data) s;
            s2 = s1\<lparr>countToRead := countToRead s1 - read\<rparr>
        in if read = pendingReal then (length data, s2\<lparr>readOverflow := 0\<rparr>)
           else (CURL_READFUNC_PAUSE, SET_RECV_PAUSED (s2\<lparr>readOverflow := readOverflow s2 + read\<rparr>)))"

end
