(* ===== verification/Perform.thy ===== *)
theory Perform
  imports Callbacks
begin

text \<open>
  Driving curl: a run of curl with the callbacks that are installed on the handle, the messages
  about finished transfers, and the loop of \<open>curlPerform\<close>.  The loop may run for as long as curl
  and the clock let it: \<open>None\<close> is a call that never returns.
\<close>

section \<open>Callbacks of a run\<close>

text \<open>
  The callbacks installed last; before \<open>nativeConfigure\<close> and \<open>closeOutput\<close> change them they are
  the ones that \<open>nativeCreate\<close> installs.
\<close>

definition writeFunction :: "'w native \<Rightarrow> callback" where
  "writeFunction s = (case easyOpts s CURLOPT_WRITEFUNCTION of Some (OptFun f) \<Rightarrow> f | _ \<Rightarrow> Write_callback)"

definition readFunction :: "'w native \<Rightarrow> callback" where
  "readFunction s = (case easyOpts s CURLOPT_READFUNCTION of Some (OptFun f) \<Rightarrow> f | _ \<Rightarrow> Read_callback)"

definition answerWrite :: "bool \<Rightarrow> u8 list \<Rightarrow> 'w native \<Rightarrow> nat \<times> 'w native" where
  "answerWrite sc data s =
     (case writeFunction s of
        Skip_receive_callback \<Rightarrow> skip_receive_callback 1 (length data) s
      | Abort_receive_callback \<Rightarrow> abort_receive_callback s
      | Connect_and_pause_callback \<Rightarrow> connect_and_pause_callback s
      | _ \<Rightarrow> write_callback sc data s)"

definition answerRead :: "nat \<Rightarrow> nat \<Rightarrow> 'w native \<Rightarrow> (nat \<times> u8 list) \<times> 'w native" where
  "answerRead sz nitems s =
     (case readFunction s of
        Eof_callback \<Rightarrow> eof_callback s
      | _ \<Rightarrow> read_callback sz nitems s)"

definition answerHeader :: "hdr_env \<Rightarrow> addr \<Rightarrow> u8 list \<Rightarrow> 'w native \<Rightarrow> nat \<times> 'w native" where
  "answerHeader he p line s =
     header_callback he p 1 (length line)
       (s\<lparr>mem := (mem s)\<lparr>chars := writeBytes (chars (mem s)) p line\<rparr>\<rparr>)"

primrec runCurl :: "bool \<Rightarrow> ('r, 'w) curl_run \<Rightarrow> 'w native \<Rightarrow> 'r \<times> 'w native" where
  "runCurl sc (Finished r w) = (\<lambda>s. (r, s\<lparr>ext := w\<rparr>))"
| "runCurl sc (AskData sz nitems k) = (\<lambda>s. case answerRead sz nitems s of (x, s') \<Rightarrow> runCurl sc (k x) s')"
| "runCurl sc (GiveData data k) = (\<lambda>s. case answerWrite sc data s of (n, s') \<Rightarrow> runCurl sc (k n) s')"
| "runCurl sc (GiveHeader he p line k) = (\<lambda>s. case answerHeader he p line s of (n, s') \<Rightarrow> runCurl sc (k n) s')"
| "runCurl sc (SetError msg k) = (\<lambda>s. runCurl sc k (s\<lparr>errorBuffer := msg\<rparr>))"

section \<open>Finished transfers\<close>

definition infoRead :: "'w curl_api \<Rightarrow> 'w native \<Rightarrow> CURLMsg option \<times> int \<times> 'w native" where
  "infoRead api s =
     (case curl_multi_info_read api (ext s) of ((msg, remaining), w) \<Rightarrow> (msg, remaining, s\<lparr>ext := w\<rparr>))"

text \<open>The loop; \<open>completed\<close> counts the transfers that went well.\<close>

partial_function (option) checkLoop :: "'w curl_api \<Rightarrow> nat \<Rightarrow> 'w native \<Rightarrow> (bool \<times> 'w native) option" where
  "checkLoop api completed s =
     (case infoRead api s of (msg, remaining, s1) \<Rightarrow>
      case msg of
        None \<Rightarrow> Some (False, s1)
      | Some CURLMSG_OTHER \<Rightarrow> Some (False, s1)
      | Some (CURLMSG_DONE result) \<Rightarrow>
          if result = CURLE_ABORTED_BY_CALLBACK \<or> result = CURLE_OK
          then (if remaining \<noteq> 0 then checkLoop api (completed + 1) s1 else Some (completed + 1 \<noteq> 0, s1))
          else Some (True, handleEasyError api result s1))"

declare checkLoop.simps [code]

definition checkResult :: "'w curl_api \<Rightarrow> 'w native \<Rightarrow> (bool \<times> 'w native) option" where
  "checkResult api s = checkLoop api 0 s"

section \<open>The loop of \<open>curlPerform\<close>\<close>

definition currentTimeout :: "'w native \<Rightarrow> int" where
  "currentTimeout s = (if headerPairCount s = 0 then connTimeout s else readTimeout s)"

definition isInterrupted :: "'w curl_api \<Rightarrow> 'w native \<Rightarrow> bool \<times> 'w native" where
  "isInterrupted api s = (case read_flag api (interrupted s) (ext s) of (b, w) \<Rightarrow> (b, s\<lparr>ext := w\<rparr>))"

definition clockNow :: "'w curl_api \<Rightarrow> 'w native \<Rightarrow> (int \<times> int) \<times> 'w native" where
  "clockNow api s = (case clock_gettime api (ext s) of (t, w) \<Rightarrow> (t, s\<lparr>ext := w\<rparr>))"

text \<open>The two conditions under which the loop has nothing to do for now.\<close>

definition waitsForCaller :: "'w native \<Rightarrow> bool" where
  "waitsForCaller s \<longleftrightarrow>
     hasState s STATE_NEED_INPUT \<and> hasState s STATE_RECV_PAUSED \<or>
     hasState s STATE_NEED_OUTPUT \<and>
       (hasState s STATE_SEND_PAUSED \<or> hasState s STATE_RECV_PAUSED \<and> hasState s STATE_DONE_SENDING)"

definition headersConsumed :: "'w curl_api \<Rightarrow> 'w native \<Rightarrow> bool" where
  "headersConsumed api s \<longleftrightarrow>
     \<not> hasState s STATE_NEED_OUTPUT \<and> \<not> hasState s STATE_NEED_INPUT \<and>
     (hasState s STATE_SEND_PAUSED \<or> hasState s STATE_RECV_PAUSED \<or>
      hasState s STATE_SEEN_HEADER_END \<and>
        (\<not> hasState s STATE_HANDLE_REDIRECT \<or> hashmapGet (mem s) (headers s) (location_key api) = 0))"

text \<open>What is left of the timeout, from the two clock readings (seconds, nanoseconds).\<close>

definition timeoutLeft :: "int \<Rightarrow> int \<times> int \<Rightarrow> int \<times> int \<Rightarrow> int" where
  "timeoutLeft timeout timeoutTimestamp currentTimestamp =
     (let t = timeout - (fst currentTimestamp - fst timeoutTimestamp) * 1000;
          diff_nsec = snd currentTimestamp - snd timeoutTimestamp
      in if diff_nsec < 0 then t + 1000 - (diff_nsec + 1000000000) div 1000000 else t)"

text \<open>
  The end of an iteration, from \<open>curl_multi_timeout\<close> on: \<open>Inl\<close> is the value returned, \<open>Inr\<close> the
  variables for the next iteration (the timeout, the time stamp and the number of events, which
  keeps its old value when there was no wait).
\<close>

definition waitStep :: "'w curl_api \<Rightarrow> int \<Rightarrow> int \<times> int \<Rightarrow> int \<Rightarrow> 'w native
    \<Rightarrow> (bool + int \<times> (int \<times> int) \<times> int) \<times> 'w native" where
  "waitStep api timeout stamp fdEvents s =
     (let (t, w) = curl_multi_timeout api (ext s);
          waitTime = (if timeout < t then timeout else t);
          ((waitResult, events), w1) =
            (if waitTime > 0 then curl_multi_wait api waitTime w else ((CURLM_OK, fdEvents), w));
          s1 = s\<lparr>ext := w1\<rparr>
      in if waitResult \<noteq> CURLM_OK then (Inl True, handleMultiError api waitResult s1)
         else if events \<noteq> 0 then (Inr (currentTimeout s1, stamp, events), s1)
         else case clockNow api s1 of (now, s2) \<Rightarrow>
           (let timeout' = timeoutLeft timeout stamp now
            in if timeout' \<le> 0 then (Inl True, throwTimeout (int (unat (headerPairCount s2))) s2)
               else (Inr (timeout', now, events), s2)))"

definition performStep :: "'w curl_api \<Rightarrow> bool \<Rightarrow> int \<Rightarrow> int \<times> int \<Rightarrow> int \<Rightarrow> 'w native
    \<Rightarrow> ((bool + int \<times> (int \<times> int) \<times> int) \<times> 'w native) option" where
  "performStep api sc timeout stamp fdEvents s =
     (case isInterrupted api s of (stop, s1) \<Rightarrow>
      if stop then Some (Inl False, s1)
      else case runCurl sc (curl_multi_perform api (ext s1)) s1 of ((result, running), s2) \<Rightarrow>
      if result \<noteq> CURLM_OK then Some (Inl True, handleMultiError api result s2)
      else case checkResult api s2 of
        None \<Rightarrow> None
      | Some (finished, s3) \<Rightarrow>
          if finished then Some (Inl True, s3)
          else if waitsForCaller s3 then Some (Inl False, s3)
          else if headersConsumed api s3 then Some (Inl False, s3)
          else if running = 0 then Some (Inl True, s3)
          else case isInterrupted api s3 of (stop', s4) \<Rightarrow>
            if stop' then Some (Inl False, s4)
            else Some (waitStep api timeout stamp fdEvents s4))"

partial_function (option) performLoop ::
  "'w curl_api \<Rightarrow> bool \<Rightarrow> int \<Rightarrow> int \<times> int \<Rightarrow> int \<Rightarrow> 'w native \<Rightarrow> (bool \<times> 'w native) option" where
  "performLoop api sc timeout stamp fdEvents s =
     (case performStep api sc timeout stamp fdEvents s of
        None \<Rightarrow> None
      | Some (Inl r, s') \<Rightarrow> Some (r, s')
      | Some (Inr (timeout', stamp', fdEvents'), s') \<Rightarrow> performLoop api sc timeout' stamp' fdEvents' s')"

declare performLoop.simps [code]

definition curlPerform :: "'w curl_api \<Rightarrow> bool \<Rightarrow> 'w native \<Rightarrow> (bool \<times> 'w native) option" where
  "curlPerform api sc s =
     (let timeout = currentTimeout s in
      case clockNow api s of (stamp, s1) \<Rightarrow> performLoop api sc timeout stamp 0 s1)"

end
