(* ===== verification/Session.thy ===== *)
theory Session
  imports Perform RequestHeaders
begin

text \<open>
  The entry points that Java calls on a connection once it is configured: \<open>read\<close>, \<open>write\<close>,
  \<open>closeOutput\<close>, \<open>reset\<close>, \<open>dispose\<close>, \<open>setOptionInt\<close> and \<open>getLastFd\<close>.  A result of \<open>None\<close> is
  a call that never returns.  Every entry point but \<open>dispose\<close> and \<open>getLastFd\<close> takes the lock.
\<close>

section \<open>Resetting and disposing\<close>

definition Curl_reset :: "'w curl_api \<Rightarrow> 'w native \<Rightarrow> 'w native" where
  "Curl_reset api s0 =
     (case ACQUIRE s0 of (acquired, s) \<Rightarrow>
      if \<not> acquired then throwThreadingException s
      else
        let s1 = (if hasState s STATE_ATTACHED then s\<lparr>ext := curl_multi_remove_handle api (ext s)\<rparr> else s);
            s2 = s1\<lparr>maxHeaderLength := 0, uploadedCount := 0, state := 0, readOverflow := 0\<rparr>;
            s3 = releaseHeaders s2
        in RELEASE (s3\<lparr>headers := snd (hashmapClear (headers s3))\<rparr>))"

text \<open>\<open>dispose\<close> frees the entries of the map and half of the header blocks; \<open>cleanup\<close> is what
  \<open>curl_easy_cleanup\<close> and \<open>curl_multi_cleanup\<close> do to curl.\<close>

definition Curl_dispose :: "'w curl_api \<Rightarrow> ('w \<Rightarrow> 'w) \<Rightarrow> 'w native \<Rightarrow> (addr, addr) Entry list \<times> 'w native" where
  "Curl_dispose api cleanup s =
     (let s1 = (if hasState s STATE_ATTACHED then s\<lparr>ext := curl_multi_remove_handle api (ext s)\<rparr> else s);
          s2 = s1\<lparr>ext := cleanup (ext s1), outHeaders := []\<rparr>;
          freed = hashmapFree (headers s2)
      in (freed, releaseHeaders s2))"

section \<open>Reading\<close>

text \<open>The common part of \<open>curl_easy_pause\<close> and its error check: true when there was an error.\<close>

definition unpause :: "bool \<Rightarrow> 'w curl_api \<Rightarrow> ('w \<Rightarrow> (CURLcode, 'w) curl_run) \<Rightarrow> 'w native \<Rightarrow> bool \<times> 'w native" where
  "unpause sc api run s =
     (case runCurl sc (run (ext s)) s of (result, s1) \<Rightarrow>
      if result \<noteq> CURLE_OK then (True, handleEasyError api result s1) else (False, s1))"

definition prepareRead :: "int \<Rightarrow> jref option \<Rightarrow> int \<Rightarrow> int \<Rightarrow> 'w native \<Rightarrow> 'w native" where
  "prepareRead i10n buf off cnt s =
     (SET_NEED_INPUT s)\<lparr>readOffset := off, countToRead := cnt, countToWrite := 0,
       bufferForReceiving := buf, interrupted := i10n, errorBuffer := []\<rparr>"

text \<open>The value computed at the label \<open>success\<close>, and the code at the label \<open>enough\<close>.\<close>

definition readResult :: "int \<Rightarrow> 'w native \<Rightarrow> int" where
  "readResult cnt s = (if cnt = 1 then readOffset s else cnt - countToRead s)"

definition finishRead :: "int \<Rightarrow> 'w native \<Rightarrow> int \<times> 'w native" where
  "finishRead retVal s = (retVal, RELEASE (SET_NEED_NO_INPUT s))"

definition Curl_read :: "'w curl_api \<Rightarrow> bool \<Rightarrow> int \<Rightarrow> jref option \<Rightarrow> int \<Rightarrow> int \<Rightarrow> 'w native
    \<Rightarrow> (int \<times> 'w native) option" where
  "Curl_read api sc i10n buf off cnt s0 =
     (case ACQUIRE s0 of (acquired, s) \<Rightarrow>
      if \<not> acquired then Some (-1, throwThreadingException s)
      else
        let s1 = prepareRead i10n buf off cnt s;
            (failed, s2) =
              (if hasState s1 STATE_RECV_PAUSED
               then unpause sc api (curl_easy_pause_recv api) (SET_RECV_UNPAUSED s1) else (False, s1))
        in if failed then Some (finishRead (-1) s2)
           else case isInterrupted api s2 of (stop, s3) \<Rightarrow>
             if stop
             then (let s4 = throwInterruptedException (cnt - countToRead s3) s3
                   in Some (finishRead (readResult cnt s4) s4))
             else case curlPerform api sc s3 of
               None \<Rightarrow> None
             | Some (perform, s4) \<Rightarrow>
                 (case isInterrupted api s4 of (stop', s5) \<Rightarrow>
                  if stop'
                  then (let s6 = throwInterruptedException (cnt - countToRead s5) s5
                        in Some (finishRead (readResult cnt s6) s6))
                  else if perform \<and> countToRead s5 > 0 \<and> countToRead s5 = cnt
                  then Some (finishRead (-1) s5)
                  else Some (finishRead (readResult cnt s5) s5)))"

section \<open>Writing\<close>

definition prepareWrite :: "int \<Rightarrow> jref option \<Rightarrow> int \<Rightarrow> int \<Rightarrow> 'w native \<Rightarrow> 'w native" where
  "prepareWrite i10n buf off cnt s =
     (SET_NEED_OUTPUT s)\<lparr>writeOffset := off, countToWrite := cnt, countToRead := 0,
       bufferForSending := buf, interrupted := i10n, errorBuffer := []\<rparr>"

definition finishWrite :: "int \<Rightarrow> 'w native \<Rightarrow> int \<times> 'w native" where
  "finishWrite cnt s = (let s' = RELEASE (SET_NEED_NO_OUTPUT s) in (cnt - countToWrite s', s'))"

definition Curl_write :: "'w curl_api \<Rightarrow> bool \<Rightarrow> int \<Rightarrow> jref option \<Rightarrow> int \<Rightarrow> int \<Rightarrow> 'w native
    \<Rightarrow> (int \<times> 'w native) option" where
  "Curl_write api sc i10n buf off cnt s0 =
     (case ACQUIRE s0 of (acquired, s) \<Rightarrow>
      if \<not> acquired then Some (-1, throwThreadingException s)
      else if uploadGoal s \<noteq> 0 \<and> uploadedCount s \<ge> uploadGoal s
      then Some (-1, throwOther [] ERROR_CLOSED s)
      else
        let s1 = prepareWrite i10n buf off cnt s;
            (failed, s2) =
              (if hasState s1 STATE_SEND_PAUSED
               then unpause sc api (curl_easy_pause_send api) (SET_SEND_UNPAUSED s1) else (False, s1))
        in if failed then Some (finishWrite cnt s2)
           else case isInterrupted api s2 of (stop, s3) \<Rightarrow>
             if stop
             then Some (finishWrite cnt (throwInterruptedException (cnt - countToWrite s3) s3))
             else case (if countToWrite s3 > 0 then curlPerform api sc s3 else Some (False, s3)) of
               None \<Rightarrow> None
             | Some (perform, s4) \<Rightarrow>
                 (case isInterrupted api s4 of (stop', s5) \<Rightarrow>
                  if stop'
                  then Some (finishWrite cnt (throwInterruptedException (cnt - countToWrite s5) s5))
                  else Some (finishWrite cnt s5)))"

definition Curl_closeOutput :: "'w curl_api \<Rightarrow> bool \<Rightarrow> int \<Rightarrow> 'w native \<Rightarrow> 'w native option" where
  "Curl_closeOutput api sc i10n s0 =
     (case ACQUIRE s0 of (acquired, s) \<Rightarrow>
      if \<not> acquired then Some (throwThreadingException s)
      else
        let s1 = s\<lparr>countToRead := 0, countToWrite := 0, interrupted := i10n, errorBuffer := []\<rparr>;
            s2 = setopt CURLOPT_READFUNCTION (OptFun Eof_callback) (SET_DONE_SENDING (SET_NEED_OUTPUT s1));
            (failed, s3) =
              (if hasState s2 STATE_SEND_PAUSED
               then unpause sc api (curl_easy_pause_send api) (SET_SEND_UNPAUSED s2) else (False, s2))
        in if failed then Some (RELEASE (SET_NEED_NO_OUTPUT s3))
           else map_option (\<lambda>(r, s4). RELEASE (SET_NEED_NO_OUTPUT s4))
             (if \<not> hasState s3 STATE_SEND_PAUSED then curlPerform api sc s3 else Some (False, s3)))"

section \<open>Options and the socket\<close>

text \<open>\<open>long\<close> has 64 bits, so that the comparison with \<open>LONG_MAX\<close> never holds.\<close>

definition optionOf :: "int \<Rightarrow> OPTIONS option" where
  "optionOf n =
     (if n = 0 then Some KEEPALIVE_PERIOD else if n = 1 then Some CONTINUE_TIMEOUT
      else if n = 2 then Some CONN_CACHE_SIZE else if n = 3 then Some MAX_REDIRECT_COUNT else None)"

definition Curl_setOptionInt :: "int \<Rightarrow> int \<Rightarrow> 'w native \<Rightarrow> 'w native" where
  "Curl_setOptionInt optionValue option s0 =
     (case ACQUIRE s0 of (acquired, s) \<Rightarrow>
      if \<not> acquired then throwThreadingException s
      else
        let capped = (if optionValue > 2 ^ 63 - 1 then 2 ^ 63 - 1 else optionValue)
        in RELEASE
          (case optionOf option of
             Some KEEPALIVE_PERIOD \<Rightarrow>
               setopt CURLOPT_TCP_KEEPIDLE (OptLong capped) (setopt CURLOPT_TCP_KEEPINTVL (OptLong capped) s)
           | Some CONTINUE_TIMEOUT \<Rightarrow> setopt CURLOPT_EXPECT_100_TIMEOUT_MS (OptLong capped) s
           | Some CONN_CACHE_SIZE \<Rightarrow> setopt CURLMOPT_MAXCONNECTS (OptLong capped) s
           | Some MAX_REDIRECT_COUNT \<Rightarrow> setopt CURLOPT_MAXREDIRS (OptLong capped) s
           | None \<Rightarrow> s))"

text \<open>\<open>multi_getsock\<close> reports up to two sockets; \<open>dup2\<close> tells whether it failed.\<close>

definition Curl_getLastFd :: "('w \<Rightarrow> int option \<times> int option) \<Rightarrow> (int \<Rightarrow> int \<Rightarrow> 'w \<Rightarrow> bool \<times> 'w) \<Rightarrow> int
    \<Rightarrow> 'w native \<Rightarrow> 'w native" where
  "Curl_getLastFd getsock dup2 fd s =
     (case getsock (ext s) of
        (Some a, None) \<Rightarrow>
          (case dup2 a fd (ext s) of (ok, w) \<Rightarrow>
             if ok then s\<lparr>ext := w\<rparr>
             else throwExn (ThrowIOException (bytesOf ''Failed to copy file descriptor'')) (s\<lparr>ext := w\<rparr>))
      | _ \<Rightarrow> throwExn (ThrowIOException (bytesOf ''Unable to obtain socket'')) s)"

end
