(* ===== verification/Config.thy ===== *)
theory Config
  imports Perform RequestHeaders
begin

text \<open>
  Creating and configuring a connection: \<open>nativeCreate\<close> and \<open>nativeConfigure\<close>.  A sequence of
  \<open>curl_easy_setopt\<close> calls is the list of its options and values, in the order of the code.
\<close>

definition setopts :: "(curlopt \<times> optval) list \<Rightarrow> 'w native \<Rightarrow> 'w native" where
  "setopts os s = fold (\<lambda>(opt, v). setopt opt v) os s"

section \<open>Creation\<close>

text \<open>What the allocations of \<open>nativeCreate\<close> answer.\<close>

record create_res =
  ctrl_ok :: bool
  pairs_ok :: bool
  map_res :: heap_res
  easy_ok :: bool
  multi_ok :: bool

definition flagLong :: "u32 \<Rightarrow> u32 \<Rightarrow> optval" where
  "flagLong flags f = OptLong (if flags AND f \<noteq> 0 then 1 else 0)"

definition createOptions :: "u32 \<Rightarrow> (curlopt \<times> optval) list" where
  "createOptions flags =
     [(CURLOPT_CONNECTTIMEOUT_MS, OptLong (2 ^ 63 - 1)),
      (CURLOPT_HTTP_VERSION, OptLong 4),
      (CURLOPT_SSL_VERIFYPEER, OptLong 0),
      (CURLOPT_PROXY_SSL_VERIFYPEER, OptLong 0),
      (CURLOPT_SSL_VERIFYHOST, OptLong 0),
      (CURLOPT_PROXY_SSL_VERIFYHOST, OptLong 0),
      (CURLOPT_SSL_OPTIONS, OptLong 3)] @
     (if flags AND FLAG_DEBUG \<noteq> 0
      then [(CURLOPT_VERBOSE, OptLong 1), (CURLOPT_DEBUGFUNCTION, OptFun Logcat_tracer)] else []) @
     (if flags AND FLAG_RAW_RESPONSE \<noteq> 0
      then [(CURLOPT_HTTP_TRANSFER_DECODING, OptLong 0), (CURLOPT_HTTP_CONTENT_DECODING, OptLong 0)] else []) @
     [(CURLOPT_IPRESOLVE, OptLong (if flags AND FLAG_USE_IPV6 \<noteq> 0 then 0 else 1)),
      (CURLOPT_TRANSFER_ENCODING, flagLong flags FLAG_REQUEST_COMPRESSION),
      (CURLOPT_TCP_NODELAY, flagLong flags FLAG_TCP_NODELAY),
      (CURLOPT_KEEP_SENDING_ON_ERROR, flagLong flags FLAG_SEND_AFTER_ERROR),
      (CURLOPT_SSL_FALSESTART, flagLong flags FLAG_TLS_FALSE_START),
      (CURLOPT_TCP_FASTOPEN, flagLong flags FLAG_TCP_FAST_OPEN),
      (CURLOPT_TCP_KEEPALIVE, flagLong flags FLAG_TCP_KEEP_ALIVE),
      (CURLOPT_NETRC, OptLong 0),
      (CURLOPT_SEEKFUNCTION, OptFun Seek_callback),
      (CURLOPT_WRITEFUNCTION, OptFun Write_callback),
      (CURLOPT_READFUNCTION, OptFun Read_callback),
      (CURLOPT_OPENSOCKETFUNCTION, OptFun Opensocket_callback),
      (CURLOPT_HEADERFUNCTION, OptFun Header_callback),
      (CURLOPT_WRITEDATA, OptSelf),
      (CURLOPT_READDATA, OptSelf),
      (CURLOPT_HEADERDATA, OptSelf),
      (CURLOPT_NOSIGNAL, OptLong 1),
      (CURLOPT_PATH_AS_IS, OptLong 1),
      (CURLOPT_SUPPRESS_CONNECT_HEADERS, OptLong 1),
      (CURLOPT_ERRORBUFFER, OptSelf)]"

text \<open>The structure after \<open>memset\<close>, in a given world; the pair array of \<open>malloc\<close> is arbitrary.\<close>

definition zeroedData :: "(cmem, addr, addr) Hashmap \<Rightarrow> (nat \<Rightarrow> addr) \<Rightarrow> cmem \<Rightarrow> (jref \<Rightarrow> u8 list)
    \<Rightarrow> jexn list \<Rightarrow> 'w \<Rightarrow> 'w native" where
  "zeroedData hm pairs m ja th w =
     \<lparr>outHeaders = [], bufferForReceiving = None, bufferForSending = None, headers = hm,
      headerPairs = pairs, headerBufSize = HEADER_BUF_SIZE_DEFAULT, headerPairCount = 0,
      maxHeaderLength = 0, uploadedCount = 0, uploadGoal = 0, state = 0, readOffset = 0,
      countToRead = 0, readOverflow = 0, writeOffset = 0, countToWrite = 0, connTimeout = 0,
      readTimeout = 0, interrupted = 0, busy = 0, outHeaderCount = 0, errorBuffer = [],
      mem = m, pairsBytes = unat HEADER_BUF_SIZE_DEFAULT * sizeof_ptr * 2, jarrays = ja, thrown = th, pending = False, easyOpts = (\<lambda>opt. None), ext = w\<rparr>"

text \<open>\<open>Inl\<close>: the exceptions after a failure.  The outer \<open>None\<close> would be a \<open>hashmapCreate\<close> that
  does not return.\<close>

definition nativeCreate :: "create_res \<Rightarrow> u32 \<Rightarrow> (nat \<Rightarrow> addr) \<Rightarrow> cmem \<Rightarrow> (jref \<Rightarrow> u8 list) \<Rightarrow> jexn list \<Rightarrow> 'w
    \<Rightarrow> (jexn list + 'w native) option" where
  "nativeCreate cr flags pairs m ja th w =
     (case hashmapCreate (map_res cr) (ucast HEADER_BUF_SIZE_DEFAULT) hdrHash hdrEquals of
        None \<Rightarrow> None
      | Some hm \<Rightarrow>
          if \<not> ctrl_ok cr \<or> \<not> pairs_ok cr \<or> hm = None \<or> \<not> easy_ok cr \<or> \<not> multi_ok cr
          then Some (Inl (th @ [ThrowException None ERROR_OOM 0]))
          else Some (Inr (setopts (createOptions flags) (zeroedData (the hm) pairs m ja th w))))"

section \<open>Configuration\<close>

definition HTTP_TYPE_GET :: int where "HTTP_TYPE_GET = 0"
definition HTTP_TYPE_POST :: int where "HTTP_TYPE_POST = 1"
definition HTTP_TYPE_PUT :: int where "HTTP_TYPE_PUT = 2"
definition HTTP_TYPE_HEAD :: int where "HTTP_TYPE_HEAD = 3"
definition HTTP_TYPE_CUSTOM :: int where "HTTP_TYPE_CUSTOM = 4"

text \<open>The arguments of \<open>nativeConfigure\<close>; \<open>url\<close> is the Java char array.\<close>

record config =
  i10nPtr :: int
  fixedLength :: int
  url :: "u16 list"
  reqMethod :: jstring
  proxy :: "jstring option"
  dns :: "jstring option"
  ifName :: "jstring option"
  urlLength :: int
  cfgReadTimeout :: int
  cfgConnTimeout :: int
  proxyType :: int
  reqType :: int
  chunkLength :: int
  followRedirects :: bool
  doInput :: bool
  doOutput :: bool

text \<open>What the allocator and the virtual machine answer.\<close>

record cfg_env =
  url_ok :: bool
  utf_ok :: bool
  if_ok :: bool
  array_alloc_ok :: bool
  encodeUtf :: "jstring \<Rightarrow> u8 list"

definition asciiDecode :: "jstring \<Rightarrow> int \<Rightarrow> u8 list" where
  "asciiDecode str len = map ucast (take (nat len) str)"

definition urlBytes :: "config \<Rightarrow> u8 list" where
  "urlBytes c = cstr (map ucast (take (nat (urlLength c)) (url c)) @ [0])"

definition redirectOptions :: "config \<Rightarrow> 'w native \<Rightarrow> 'w native" where
  "redirectOptions c s =
     (if followRedirects c then setopt CURLOPT_FOLLOWLOCATION (OptLong 1) (SET_HANDLE_REDIRECT s)
      else setopt CURLOPT_FOLLOWLOCATION (OptLong 0) (SET_DONT_HANDLE_REDIRECT s))"

definition proxyOptions :: "cfg_env \<Rightarrow> config \<Rightarrow> (curlopt \<times> optval) list" where
  "proxyOptions ce c =
     (case proxy c of
        Some p \<Rightarrow>
          (let proxyStr = OptString (if utf_ok ce then Some (encodeUtf ce p) else None) in
           if proxyType c = 2 then [(CURLOPT_PROXYTYPE, OptLong 2), (CURLOPT_PROXY, proxyStr)]
           else if proxyType c = 1 then [(CURLOPT_PROXY, proxyStr)]
           else if proxyType c = 3 then [(CURLOPT_PRE_PROXY, proxyStr)]
           else if proxyType c = 4 then [(CURLOPT_PROXYTYPE, OptLong 7), (CURLOPT_PROXY, proxyStr)]
           else [])
      | None \<Rightarrow> [(CURLOPT_PROXY, OptString (Some []))])"

definition methodOptions :: "config \<Rightarrow> (curlopt \<times> optval) list" where
  "methodOptions c =
     [if doOutput c then (CURLOPT_UPLOAD, OptLong 1)
      else if reqType c = HTTP_TYPE_HEAD \<and> \<not> doInput c then (CURLOPT_NOBODY, OptLong 1)
      else (CURLOPT_HTTPGET, OptLong 1),
      (CURLOPT_CUSTOMREQUEST, OptString (Some
        (if reqType c = HTTP_TYPE_GET then bytesOf ''GET''
         else if reqType c = HTTP_TYPE_PUT then bytesOf ''PUT''
         else if reqType c = HTTP_TYPE_HEAD then bytesOf ''HEAD''
         else if reqType c = HTTP_TYPE_POST then bytesOf ''POST''
         else cstr (asciiDecode (reqMethod c) (int (length (reqMethod c))) @ [0]))))]"

definition uploadOptions :: "config \<Rightarrow> 'w native \<Rightarrow> 'w native" where
  "uploadOptions c s =
     (if doOutput c \<and> fixedLength c \<noteq> 0
      then (setopt CURLOPT_INFILESIZE_LARGE (OptLong (fixedLength c)) (SET_DO_OUTPUT s))
             \<lparr>uploadGoal := of_int (fixedLength c)\<rparr>
      else (setopt CURLOPT_INFILESIZE_LARGE (OptLong (-1)) (SET_DO_NO_OUTPUT s))\<lparr>uploadGoal := 0\<rparr>)"

definition dnsOption :: "config \<Rightarrow> curlopt \<times> optval" where
  "dnsOption c = (CURLOPT_DNS_SERVERS, OptString (case dns c of
     Some d \<Rightarrow> Some (cstr (asciiDecode d (int (length d)) @ [0])) | None \<Rightarrow> None))"

text \<open>The buffer has 4 + 2 * length bytes; the modified UTF-8 form may need three per character.\<close>

definition interfaceOption :: "cfg_env \<Rightarrow> config \<Rightarrow> 'w native \<Rightarrow> 'w native" where
  "interfaceOption ce c s =
     (case ifName c of
        Some i \<Rightarrow>
          if \<not> if_ok ce then logFault NullAccess s
          else setopt CURLOPT_INTERFACE (OptString (Some (cstr (bytesOf ''if!'' @ encodeUtf ce i))))
                 (noteWrites (4 + 2 * int (length i)) (3 + int (length (encodeUtf ce i))) s)
      | None \<Rightarrow> setopt CURLOPT_INTERFACE (OptString None) s)"

definition timeoutOptions :: "config \<Rightarrow> 'w native \<Rightarrow> 'w native" where
  "timeoutOptions c s =
     s\<lparr>readTimeout := (if cfgReadTimeout c \<le> 0 then 2 ^ 31 - 1 else cfgReadTimeout c),
       connTimeout := (if cfgConnTimeout c \<le> 0 then 2 ^ 31 - 1 else cfgConnTimeout c)\<rparr>"

definition callbackOptions :: "config \<Rightarrow> 'w native \<Rightarrow> 'w native" where
  "callbackOptions c s =
     (let s1 = (if doInput c then setopt CURLOPT_WRITEFUNCTION (OptFun Write_callback) (SET_DO_INPUT s)
                else setopt CURLOPT_WRITEFUNCTION
                       (OptFun (if doOutput c then Skip_receive_callback else Abort_receive_callback))
                       (SET_DO_NO_INPUT s))
      in if doOutput c then setopt CURLOPT_READFUNCTION (OptFun Read_callback) s1 else s1)"

definition attach :: "'w curl_api \<Rightarrow> 'w native \<Rightarrow> 'w native" where
  "attach api s =
     (if \<not> hasState s STATE_ATTACHED then SET_ATTACHED (s\<lparr>ext := curl_multi_add_handle api (ext s)\<rparr>) else s)"

text \<open>All options, from the URL to the attaching of the handle.\<close>

definition applyConfig :: "'w curl_api \<Rightarrow> cfg_env \<Rightarrow> config \<Rightarrow> 'w native \<Rightarrow> 'w native" where
  "applyConfig api ce c s =
     (let s1 = redirectOptions c (setopt CURLOPT_URL (OptString (Some (urlBytes c))) s);
          s2 = uploadOptions c (setopts (proxyOptions ce c @ methodOptions c) s1);
          s3 = setopts [dnsOption c] (setopt CURLOPT_HTTPHEADER (OptList (outHeaders s2)) s2);
          s4 = timeoutOptions c (interfaceOption ce c s3)
      in attach api (callbackOptions c s4))"

text \<open>The char array with the URL of the last redirect.\<close>

definition storeUrl :: "bool \<Rightarrow> u8 list \<Rightarrow> u16 list \<Rightarrow> u16 list" where
  "storeUrl sc new old =
     (let chs = map (toJchar sc) new in
      if length new > length old then chs
      else if length new < length old then chs @ [0] @ drop (Suc (length new)) old
      else chs)"

definition redirectedUrl :: "'w curl_api \<Rightarrow> cfg_env \<Rightarrow> bool \<Rightarrow> config \<Rightarrow> 'w native \<Rightarrow> u16 list option \<times> 'w native" where
  "redirectedUrl api ce sc c s =
     (case (if followRedirects c then curl_effective_url api (ext s) else None) of
        Some new \<Rightarrow>
          if new = urlBytes c then (Some (url c), s)
          else if length new > length (url c) \<and> \<not> array_alloc_ok ce then (None, logFault NullAccess s)
          else (Some (storeUrl sc new (url c)), s)
      | None \<Rightarrow> (Some (url c), s))"

text \<open>
  From the first look at the interruption flag to the last: true when the code goes to the label
  \<open>enough\<close> before it looks at the final URL.
\<close>

definition connectRequest :: "'w curl_api \<Rightarrow> bool \<Rightarrow> 'w native \<Rightarrow> (bool \<times> 'w native) option" where
  "connectRequest api sc s =
     (case isInterrupted api s of (stop, s1) \<Rightarrow>
      if stop then Some (True, throwInterruptedException 0 s1)
      else case runCurl sc (curl_multi_perform api (ext s1)) s1 of ((connectResult, running), s2) \<Rightarrow>
        if connectResult \<noteq> CURLM_OK then Some (True, handleMultiError api connectResult s2)
        else case (if running = 0 then checkResult api s2 else Some (False, s2)) of
          None \<Rightarrow> None
        | Some (finished, s3) \<Rightarrow>
            if finished then Some (True, s3)
            else case curlPerform api sc s3 of
              None \<Rightarrow> None
            | Some (stopped, s4) \<Rightarrow>
                if stopped then Some (True, s4)
                else case isInterrupted api s4 of (stop', s5) \<Rightarrow>
                  Some (False, if stop' then throwInterruptedException 0 s5 else s5))"

definition nativeConfigure :: "'w curl_api \<Rightarrow> cfg_env \<Rightarrow> bool \<Rightarrow> config \<Rightarrow> 'w native
    \<Rightarrow> (u16 list option \<times> 'w native) option" where
  "nativeConfigure api ce sc c s0 =
     (case ACQUIRE s0 of (acquired, sa) \<Rightarrow>
      if \<not> acquired then Some (None, throwThreadingException sa)
      else
        let s = sa\<lparr>countToRead := 0, countToWrite := 0, interrupted := i10nPtr c, errorBuffer := []\<rparr> in
        if \<not> url_ok ce then Some (Some (url c), RELEASE (oomThrow s))
        else case connectRequest api sc (applyConfig api ce c s) of
          None \<Rightarrow> None
        | Some (enough, s1) \<Rightarrow>
            if enough then Some (Some (url c), RELEASE s1)
            else case redirectedUrl api ce sc c s1 of (r, s2) \<Rightarrow> Some (r, RELEASE s2))"

end
