(* ===== verification/DriverInvariants.thy ===== *)
theory DriverInvariants
  imports Session Config
begin

text \<open>
  Invariants of the lock and the header store over everything that runs curl.  The locale
  \<open>driver_invariant\<close> takes a predicate on these fields that the header callback keeps, and carries
  it through runs of curl, the loop and the start of a request; \<open>entry_invariant\<close> carries it through
  every entry point.  It is interpreted on the shape of the header map.
\<close>

section \<open>What the driver leaves alone\<close>

text \<open>
  The fields that only the header callback and the entry points themselves change: the lock and
  the store of response headers.
\<close>

type_synonym native_core = "u32 \<times> (cmem, addr, addr) Hashmap \<times> (nat \<Rightarrow> addr) \<times> u32 \<times> nat \<times> u16 \<times> u16"

definition nativeCore :: "'w native \<Rightarrow> native_core" where
  "nativeCore s = (busy s, headers s, headerPairs s, headerBufSize s, pairsBytes s, headerPairCount s, maxHeaderLength s)"

lemma core_state [simp]: "nativeCore (s\<lparr>state := x\<rparr>) = nativeCore s"
  by (simp add: nativeCore_def)

lemma core_flags [simp]:
  "nativeCore (SET_ATTACHED s) = nativeCore s" "nativeCore (SET_DO_INPUT s) = nativeCore s"
  "nativeCore (SET_DO_NO_INPUT s) = nativeCore s" "nativeCore (SET_DO_OUTPUT s) = nativeCore s"
  "nativeCore (SET_DO_NO_OUTPUT s) = nativeCore s" "nativeCore (SET_SEND_PAUSED s) = nativeCore s"
  "nativeCore (SET_SEND_UNPAUSED s) = nativeCore s" "nativeCore (SET_RECV_PAUSED s) = nativeCore s"
  "nativeCore (SET_RECV_UNPAUSED s) = nativeCore s" "nativeCore (SET_HANDLE_REDIRECT s) = nativeCore s"
  "nativeCore (SET_DONT_HANDLE_REDIRECT s) = nativeCore s" "nativeCore (SET_NEED_INPUT s) = nativeCore s"
  "nativeCore (SET_NEED_NO_INPUT s) = nativeCore s" "nativeCore (SET_NEED_OUTPUT s) = nativeCore s"
  "nativeCore (SET_NEED_NO_OUTPUT s) = nativeCore s" "nativeCore (SET_DONE_SENDING s) = nativeCore s"
  "nativeCore (SET_SEEN_HEADER_END s) = nativeCore s" "nativeCore (SET_SEEN_NO_HEADER_END s) = nativeCore s"
  by (simp_all add: SET_defs)

lemma core_fields [simp]:
  "nativeCore (s\<lparr>ext := w\<rparr>) = nativeCore s" "nativeCore (s\<lparr>errorBuffer := e\<rparr>) = nativeCore s"
  "nativeCore (s\<lparr>thrown := t\<rparr>) = nativeCore s" "nativeCore (s\<lparr>pending := p\<rparr>) = nativeCore s" "nativeCore (s\<lparr>mem := m\<rparr>) = nativeCore s"
  "nativeCore (s\<lparr>jarrays := j\<rparr>) = nativeCore s" "nativeCore (s\<lparr>easyOpts := os\<rparr>) = nativeCore s"
  "nativeCore (s\<lparr>readOffset := i\<rparr>) = nativeCore s" "nativeCore (s\<lparr>writeOffset := i\<rparr>) = nativeCore s"
  "nativeCore (s\<lparr>countToRead := i\<rparr>) = nativeCore s" "nativeCore (s\<lparr>countToWrite := i\<rparr>) = nativeCore s"
  "nativeCore (s\<lparr>readOverflow := i\<rparr>) = nativeCore s" "nativeCore (s\<lparr>uploadedCount := u\<rparr>) = nativeCore s"
  "nativeCore (s\<lparr>uploadGoal := u\<rparr>) = nativeCore s" "nativeCore (s\<lparr>interrupted := i\<rparr>) = nativeCore s"
  "nativeCore (s\<lparr>bufferForReceiving := b\<rparr>) = nativeCore s" "nativeCore (s\<lparr>bufferForSending := b\<rparr>) = nativeCore s"
  "nativeCore (s\<lparr>readTimeout := i\<rparr>) = nativeCore s" "nativeCore (s\<lparr>connTimeout := i\<rparr>) = nativeCore s"
  "nativeCore (s\<lparr>outHeaders := l\<rparr>) = nativeCore s" "nativeCore (s\<lparr>outHeaderCount := n\<rparr>) = nativeCore s"
  by (simp_all add: nativeCore_def)

lemma core_throw [simp]:
  "nativeCore (throwExn e t) = nativeCore t" "nativeCore (oomThrow t) = nativeCore t"
  "nativeCore (throwOther x et t) = nativeCore t" "nativeCore (throwTimeout n t) = nativeCore t"
  "nativeCore (throwInterruptedException n t) = nativeCore t" "nativeCore (logFault f t) = nativeCore t"
  "nativeCore (setopt opt v t) = nativeCore t" "nativeCore (throwThreadingException t) = nativeCore t"
  by (simp_all add: throwExn_def oomThrow_def throwOther_def throwTimeout_def throwInterruptedException_def
      throwThreadingException_def logFault_def setopt_def Let_def)

lemma core_arrays [simp]:
  "nativeCore (snd (array_read b n s)) = nativeCore s" "nativeCore (array_write b d n s) = nativeCore s"
  by (simp_all add: array_read_def array_write_def Let_def)

lemma core_sending [simp]:
  "nativeCore (snd (snd (takeOutput c s))) = nativeCore s" "nativeCore (noteUploaded w s) = nativeCore s"
  by (simp_all add: takeOutput_def noteUploaded_def Let_def case_prod_beta split: option.split)

lemma core_read_callback [simp]:
  "nativeCore (snd (read_callback sz n s)) = nativeCore s" "nativeCore (snd (eof_callback s)) = nativeCore s"
  by (simp_all add: read_callback_def eof_callback_def Let_def case_prod_beta)

lemma core_putInput [simp]: "nativeCore (snd (putInput sc d s)) = nativeCore s"
  by (simp add: putInput_def Let_def split: option.split)

lemma core_write_callback [simp]: "nativeCore (snd (write_callback sc d s)) = nativeCore s"
  by (simp add: write_callback_def Let_def case_prod_beta)

lemma core_errors [simp]:
  "nativeCore (handleMultiError api e s) = nativeCore s" "nativeCore (handleEasyError api c s) = nativeCore s"
  by (auto simp: handleMultiError_def handleEasyError_def errorDesc_def Let_def split: option.split error_type.split)

lemma core_world [simp]:
  "nativeCore (snd (snd (infoRead api s))) = nativeCore s" "nativeCore (snd (isInterrupted api s)) = nativeCore s"
  "nativeCore (snd (clockNow api s)) = nativeCore s"
  by (simp_all add: infoRead_def isInterrupted_def clockNow_def case_prod_beta)

lemma core_waitStep [simp]: "nativeCore (snd (waitStep api timeout stamp ev s)) = nativeCore s"
  by (simp add: waitStep_def Let_def case_prod_beta)

lemma core_checkLoop:
  assumes "checkLoop api n s = Some y"
  shows "nativeCore (snd y) = nativeCore s"
proof (rule checkLoop.raw_induct [where P = "\<lambda>api n s y. nativeCore (snd y) = nativeCore s", OF _ assms])
  fix f :: "'a curl_api \<Rightarrow> nat \<Rightarrow> 'a native \<Rightarrow> (bool \<times> 'a native) option" and api n s y
  assume IH: "\<And>api n s y. f api n s = Some y \<Longrightarrow> nativeCore (snd y) = nativeCore s"
  assume "(case infoRead api s of (msg, remaining, s1) \<Rightarrow>
      case msg of
        None \<Rightarrow> Some (False, s1)
      | Some CURLMSG_OTHER \<Rightarrow> Some (False, s1)
      | Some (CURLMSG_DONE result) \<Rightarrow>
          if result = CURLE_ABORTED_BY_CALLBACK \<or> result = CURLE_OK
          then (if remaining \<noteq> 0 then f api (n + 1) s1 else Some (n + 1 \<noteq> 0, s1))
          else Some (True, handleEasyError api result s1)) = Some y"
  then show "nativeCore (snd y) = nativeCore s"
    using IH core_world(1) [of api s]
    by (auto simp: case_prod_beta split: option.splits CURLMsg.splits if_splits)
qed

lemma core_checkResult: "checkResult api s = Some (r, s') \<Longrightarrow> nativeCore s' = nativeCore s"
  using core_checkLoop [of api 0 s "(r, s')"] by (simp add: checkResult_def)

section \<open>Invariants of the driver\<close>

text \<open>
  A predicate on these fields that the header callback keeps is kept by everything that runs curl:
  a run of curl with any callbacks, the loop and the start of a request.
\<close>

locale driver_invariant =
  fixes P :: "native_core \<Rightarrow> bool"
  assumes header: "P (nativeCore s) \<Longrightarrow> P (nativeCore (snd (header_callback he p sz n (s :: 'w native))))"
begin

lemma answerHeader_keeps: "P (nativeCore (s :: 'w native)) \<Longrightarrow> P (nativeCore (snd (answerHeader he p line s)))"
  by (simp add: answerHeader_def header)

lemma run_keeps: "P (nativeCore (s :: 'w native)) \<Longrightarrow> P (nativeCore (snd (runCurl sc r s)))"
proof (induction r arbitrary: s)
  case (AskData sz n k)
  have "nativeCore (snd (answerRead sz n s)) = nativeCore s" by (simp add: answerRead_def split: callback.split)
  then show ?case using AskData by (simp add: case_prod_beta)
next
  case (GiveData d k)
  have "nativeCore (snd (answerWrite sc d s)) = nativeCore s"
    by (simp add: answerWrite_def skip_receive_callback_def abort_receive_callback_def
        connect_and_pause_callback_def split: callback.split)
  then show ?case using GiveData by (simp add: case_prod_beta)
next
  case (GiveHeader he p line k)
  then show ?case using answerHeader_keeps by (simp add: case_prod_beta)
qed simp_all

lemma performStep_keeps:
  fixes s :: "'w native"
  assumes "performStep api sc timeout stamp ev s = Some (r, s')" "P (nativeCore s)"
  shows "P (nativeCore s')"
proof -
  let ?s1 = "snd (isInterrupted api s)"
  let ?s2 = "snd (runCurl sc (curl_multi_perform api (ext ?s1)) ?s1)"
  have s1: "P (nativeCore ?s1)" using assms(2) by simp
  have s2: "P (nativeCore ?s2)" using run_keeps [OF s1] .
  have s3: "P (nativeCore s3)" if "checkResult api ?s2 = Some (f, s3)" for f s3
    using core_checkResult [OF that] s2 by simp
  have s4: "P (nativeCore s4)" if "isInterrupted api s3 = (b, s4)" "P (nativeCore s3)" for b s3 s4
    using core_world(2) [of api s3] that by simp
  have s5: "P (nativeCore s5)" if "waitStep api timeout stamp ev s4 = (x, s5)" "P (nativeCore s4)" for x s4 s5
    using core_waitStep [of api timeout stamp ev s4] that by simp
  show ?thesis
    using assms(1) s1 s2 s3 s4 s5
    by (auto simp: performStep_def split: prod.splits option.splits if_splits)
qed

lemma performLoop_keeps:
  assumes "performLoop api sc timeout stamp ev (s :: 'w native) = Some y"
  shows "P (nativeCore s) \<longrightarrow> P (nativeCore (snd y))"
proof (rule performLoop.raw_induct
    [where P = "\<lambda>api sc timeout stamp ev s y. P (nativeCore s) \<longrightarrow> P (nativeCore (snd y))", OF _ assms])
  fix f :: "'w curl_api \<Rightarrow> bool \<Rightarrow> int \<Rightarrow> int \<times> int \<Rightarrow> int \<Rightarrow> 'w native \<Rightarrow> (bool \<times> 'w native) option"
    and api sc timeout stamp ev s y
  assume IH: "\<And>api sc timeout stamp ev s y. f api sc timeout stamp ev s = Some y \<Longrightarrow>
      P (nativeCore s) \<longrightarrow> P (nativeCore (snd y))"
  assume "(case performStep api sc timeout stamp ev s of
        None \<Rightarrow> None
      | Some (Inl r, s') \<Rightarrow> Some (r, s')
      | Some (Inr (timeout', stamp', fdEvents'), s') \<Rightarrow> f api sc timeout' stamp' fdEvents' s') = Some y"
  then show "P (nativeCore s) \<longrightarrow> P (nativeCore (snd y))"
    using IH performStep_keeps [of api sc timeout stamp ev s]
    by (auto split: option.splits sum.splits prod.splits)
qed

lemma curlPerform_keeps:
  fixes s :: "'w native"
  assumes "curlPerform api sc s = Some (r, s')" "P (nativeCore s)"
  shows "P (nativeCore s')"
  using performLoop_keeps [of api sc _ _ 0 "snd (clockNow api s)" "(r, s')"] assms
  by (auto simp: curlPerform_def Let_def case_prod_beta)

lemma unpause_keeps:
  fixes s :: "'w native"
  assumes "P (nativeCore s)"
  shows "P (nativeCore (snd (unpause sc api run s)))"
  using run_keeps [OF assms, of sc "run (ext s)"] by (simp add: unpause_def case_prod_beta)

lemma connectRequest_keeps:
  fixes s :: "'w native"
  assumes "connectRequest api sc s = Some (r, s')" "P (nativeCore s)"
  shows "P (nativeCore s')"
proof -
  let ?s1 = "snd (isInterrupted api s)"
  let ?s2 = "snd (runCurl sc (curl_multi_perform api (ext ?s1)) ?s1)"
  have s2: "P (nativeCore ?s2)" using run_keeps [of ?s1] assms(2) by simp
  have s3: "P (nativeCore s3)" if "checkResult api ?s2 = Some (f, s3)" for f s3
    using core_checkResult [OF that] s2 by simp
  have s4: "P (nativeCore s4)" if "curlPerform api sc s3 = Some (f, s4)" "P (nativeCore s3)" for f s3 s4
    using curlPerform_keeps that by blast
  have s5: "P (nativeCore s5)" if "isInterrupted api s4 = (b, s5)" "P (nativeCore s4)" for b s4 s5
    using core_world(2) [of api s4] that by simp
  show ?thesis
    using assms s2 s3 s4 s5 core_world(2) [of api s]
    by (auto simp: connectRequest_def split: prod.splits option.splits if_splits)
qed

end

section \<open>Reading functions\<close>

lemma core_strings [simp]:
  "nativeCore (snd (headerToString je cap str s)) = nativeCore s" "nativeCore (snd (setElement arr i x s)) = nativeCore s"
  "nativeCore (snd (putString je cap str j arr s)) = nativeCore s"
  by (simp_all add: headerToString_def setElement_def putString_def case_prod_beta)

lemma core_valuesLoop:
  assumes "valuesLoop je cap first hv st = Some y"
  shows "nativeCore (snd y) = nativeCore (snd (snd st))"
proof (rule valuesLoop.raw_induct
    [where P = "\<lambda>je cap first hv st y. nativeCore (snd y) = nativeCore (snd (snd st))", OF _ assms])
  fix f :: "jvm_env \<Rightarrow> nat \<Rightarrow> addr \<Rightarrow> addr \<Rightarrow> jstring option list \<times> nat \<times> 'a native
      \<Rightarrow> ((jstring option list \<times> nat) option \<times> 'a native) option" and je cap first hv y
    and st :: "jstring option list \<times> nat \<times> 'a native"
  assume IH: "\<And>je cap first hv st y. f je cap first hv st = Some y \<Longrightarrow> nativeCore (snd y) = nativeCore (snd (snd st))"
  obtain arr pos s where st: "st = (arr, pos, s)" by (cases st) auto
  let ?h = "headerToString je cap (cstring (mem s) (hv + 8)) s"
  let ?e = "setElement arr (int pos) (fst ?h) (snd ?h)"
  assume "(case st of (arr, hdrPos, s) \<Rightarrow>
      let valuePtr = hv + 8;
          (str, s1) = headerToString je cap (cstring (mem s) valuePtr) s
      in if \<not> string_ok je hdrPos then Some (None, throwExn JvmException s1)
         else
           let (arr', s2) = setElement arr (int hdrPos) str s1;
               next = refs (mem s2) hv
           in if next \<noteq> first then f je cap first next (arr', hdrPos + 1, s2)
              else Some (Some (arr', hdrPos + 1), s2)) = Some y"
  then consider "y = (None, throwExn JvmException (snd ?h))" | "y = (Some (fst ?e, pos + 1), snd ?e)"
    | "f je cap first (refs (mem (snd ?e)) hv) (fst ?e, pos + 1, snd ?e) = Some y"
    by (auto simp: st Let_def case_prod_beta split: if_splits)
  then show "nativeCore (snd y) = nativeCore (snd (snd st))"
    using IH by cases (simp_all add: st)
qed

lemma core_responseChain:
  "responseChain je cap es (arr, pos, s) = Some (r, s') \<Longrightarrow> nativeCore s' = nativeCore s"
proof (induction je cap es "(arr, pos, s)" arbitrary: arr pos s rule: responseChain.induct)
  case (2 je cap e es arr pos s)
  let ?h = "headerToString je cap (cstring (mem s) (key e)) s"
  let ?el = "setElement arr (int pos) (fst ?h) (snd ?h)"
  have "nativeCore s3 = nativeCore s" if "valuesLoop je cap f h (fst ?el, pos + 1, snd ?el) = Some (x, s3)" for f h x s3
    using core_valuesLoop [OF that] by simp
  then show ?case
    using "2.prems" "2.hyps" [of ?h "fst ?h" "snd ?h" ?el "fst ?el" "snd ?el"]
    by (auto simp: Let_def case_prod_beta split: if_splits option.splits)
qed simp

lemma core_responseBuckets:
  "responseBuckets je cap bs (arr, pos, s) = Some (r, s') \<Longrightarrow> nativeCore s' = nativeCore s"
proof (induction bs arbitrary: arr pos s)
  case (Cons b bs)
  then show ?case using core_responseChain [of je cap b arr pos s]
    by (auto split: option.splits)
qed simp

lemma core_getResponseHeaders: "getResponseHeaders je s = Some (r, s') \<Longrightarrow> nativeCore s' = nativeCore s"
  using core_responseBuckets [of je _ "buckets (headers s)" _ 0 s]
  by (auto simp: getResponseHeaders_def Let_def split: if_splits option.splits)

lemma core_requestLoop [simp]:
  fixes s :: "'w native"
  shows "nativeCore (snd (requestLoop je ac i cap ds arr n s)) = nativeCore s"
proof (induction ds arbitrary: i cap arr n s)
  case (Cons d ds)
  have p: "nativeCore s' = nativeCore s" if "putString je c x j a s = (y, s')" for c x j a y s' and s :: "'w native"
    using core_strings(3) [of je c x j a s] that by simp
  show ?case using Cons.IH by (auto simp: Let_def split: option.split prod.split dest!: p)
qed simp

lemma core_getRequestHeaders [simp]: "nativeCore (snd (getRequestHeaders je s)) = nativeCore s"
  by (simp add: getRequestHeaders_def Let_def)

lemma core_getHeader [simp]: "nativeCore (snd (getHeader stk k l s)) = nativeCore s"
  by (simp add: getHeader_def Let_def split: option.split)

section \<open>Invariants of the entry points\<close>

lemma core_prepare [simp]:
  "nativeCore (prepareRead i b o' n s) = nativeCore s" "nativeCore (prepareWrite i b o' n s) = nativeCore s"
  by (simp_all add: prepareRead_def prepareWrite_def)

lemma core_setopts [simp]: "nativeCore (setopts os s) = nativeCore s"
  unfolding setopts_def by (induction os arbitrary: s) auto

lemma core_noteWrites [simp]: "nativeCore (noteWrites sz n s) = nativeCore s"
  by (simp add: noteWrites_def)

lemma core_applyConfig [simp]: "nativeCore (applyConfig api ce c s) = nativeCore s"
  by (simp add: applyConfig_def attach_def callbackOptions_def timeoutOptions_def interfaceOption_def
      uploadOptions_def redirectOptions_def Let_def split: option.split)

lemma core_redirectedUrl [simp]: "nativeCore (snd (redirectedUrl api ce sc c s)) = nativeCore s"
  by (simp add: redirectedUrl_def split: option.split)

text \<open>
  An invariant that does not look at the lock and that survives the clearing of the store is kept
  by every entry point.
\<close>

locale entry_invariant = driver_invariant P for P :: "native_core \<Rightarrow> bool" +
  assumes lock_free: "P (b, x) \<Longrightarrow> P (b', x)"
    and disposed: "P (b, hm, pairs, n, bytes, cnt, mx) \<Longrightarrow> P (b, hm, pairs, n, bytes, 0, mx)"
    and cleared: "P (b, hm, pairs, n, bytes, cnt, mx) \<Longrightarrow> P (b, snd (hashmapClear hm), pairs, n, bytes, 0, 0)"
begin

abbreviation holds :: "'w native \<Rightarrow> bool" where
  "holds s \<equiv> P (nativeCore s)"

lemma lock_keeps [simp]: "holds ((s :: 'w native)\<lparr>busy := b\<rparr>) = holds s" "holds (RELEASE (s :: 'w native)) = holds s"
  using lock_free by (auto simp: nativeCore_def RELEASE_def)

lemma interrupted_keeps: "isInterrupted api (s :: 'w native) = (stop, s') \<Longrightarrow> holds s' = holds s"
  using core_world(2) [of api s] by simp

lemma read_keeps:
  assumes "Curl_read api sc i10n buf off cnt (s :: 'w native) = Some (r, s')" "holds s"
  shows "holds s'"
proof -
  let ?s1 = "prepareRead i10n buf off cnt (s\<lparr>busy := 1\<rparr>)"
  have un: "holds s2" if "unpause sc api run t = (x, s2)" "holds t" for run t x s2
    using unpause_keeps [OF that(2), of sc api run] that(1) by simp
  have "holds ?s1" "holds (SET_RECV_UNPAUSED ?s1)" using assms(2) by simp_all
  then show ?thesis
    using assms un interrupted_keeps curlPerform_keeps
    by (auto simp: Curl_read_def ACQUIRE_def finishRead_def Let_def split: if_splits prod.splits option.splits)
qed

lemma write_keeps:
  assumes "Curl_write api sc i10n buf off cnt (s :: 'w native) = Some (r, s')" "holds s"
  shows "holds s'"
proof -
  let ?s1 = "prepareWrite i10n buf off cnt (s\<lparr>busy := 1\<rparr>)"
  have un: "holds s2" if "unpause sc api run t = (x, s2)" "holds t" for run t x s2
    using unpause_keeps [OF that(2), of sc api run] that(1) by simp
  have "holds ?s1" "holds (SET_SEND_UNPAUSED ?s1)" using assms(2) by simp_all
  then show ?thesis
    using assms un interrupted_keeps curlPerform_keeps
    by (auto simp: Curl_write_def ACQUIRE_def finishWrite_def Let_def split: if_splits prod.splits option.splits)
qed

lemma closeOutput_keeps:
  assumes "Curl_closeOutput api sc i10n (s :: 'w native) = Some s'" "holds s"
  shows "holds s'"
proof -
  have un: "holds s2" if "unpause sc api run t = (x, s2)" "holds t" for run t x s2
    using unpause_keeps [OF that(2), of sc api run] that(1) by simp
  show ?thesis
    using assms un [of "curl_easy_pause_send api"] curlPerform_keeps
    by (auto simp: Curl_closeOutput_def ACQUIRE_def Let_def split: if_splits prod.splits option.splits)
qed

lemma configure_keeps:
  assumes "nativeConfigure api ce sc c (s :: 'w native) = Some (u, s')" "holds s"
  shows "holds s'"
proof -
  have url: "holds s2 = holds t" if "redirectedUrl api ce sc c t = (x, s2)" for t x s2
    using core_redirectedUrl [of api ce sc c t] that by simp
  show ?thesis
    using assms connectRequest_keeps url
    by (auto simp: nativeConfigure_def ACQUIRE_def Let_def split: if_splits prod.splits option.splits)
qed

lemma reset_keeps: "holds (s :: 'w native) \<Longrightarrow> holds (Curl_reset api s)"
  using cleared by (auto simp: Curl_reset_def ACQUIRE_def RELEASE_def releaseHeaders_def nativeCore_def Let_def
      throwThreadingException_def throwExn_def intro: lock_free)

lemma disposed_keeps:
  fixes s :: "'w native"
  assumes "holds s"
  shows "holds (snd (Curl_dispose api cleanup s))"
  using disposed assms by (auto simp: Curl_dispose_def releaseHeaders_def nativeCore_def Let_def)

lemma simple_keeps:
  fixes s :: "'w native"
  assumes "holds s"
  shows "holds (Curl_setOptionInt v n s)" "holds (Curl_setHeader re k vo kl vl s)" "holds (Curl_addHeader re k va kl vl s)"
    "holds (Curl_clearHeaders s)" "holds (snd (Curl_outHeader re je k kl s))"
  using assms
  by (auto simp: Curl_setOptionInt_def Curl_setHeader_def Curl_addHeader_def Curl_clearHeaders_def Curl_outHeader_def
      ACQUIRE_def Let_def split: option.split OPTIONS.split prod.split)

lemma header_keeps:
  fixes s :: "'w native"
  assumes "holds s"
  shows "holds (snd (Curl_header stk je ko l s))" "holds (snd (Curl_intHeader stk rc d ko l s))"
    "Curl_getHeaders je response s = Some (a, s') \<Longrightarrow> holds s'"
proof -
  have get: "holds s2 = holds t" if "getHeader stk ko l t = (x, s2)" for t x s2
    using core_getHeader [of stk ko l t] that by simp
  have str: "holds s2 = holds t" if "headerToString je cap bytes t = (x, s2)" for cap bytes t x s2
    using core_strings(1) [of je cap bytes t] that by simp
  have req: "holds s2 = holds t" if "getRequestHeaders je t = (x, s2)" for t x s2
    using core_getRequestHeaders [of je t] that by simp
  show "holds (snd (Curl_header stk je ko l s))" "holds (snd (Curl_intHeader stk rc d ko l s))"
    using assms by (auto simp: Curl_header_def Curl_intHeader_def ACQUIRE_def Let_def get str
        split: prod.split option.split)
  show "holds s'" if "Curl_getHeaders je response s = Some (a, s')"
    using that assms core_getResponseHeaders req
    by (fastforce simp: Curl_getHeaders_def ACQUIRE_def split: if_splits)
qed

end

section \<open>The header callback\<close>

lemma linkHeader_core:
  "nativeCore (snd (linkHeader a k v s)) =
     (busy s, headers (snd (linkHeader a k v s)), headerPairs s, headerBufSize s, pairsBytes s, headerPairCount s, maxHeaderLength s)"
  by (simp add: linkHeader_def nativeCore_def Let_def split: option.split)

lemma linkHeader_shape:
  assumes "mapShape (headers s)"
  shows "mapShape (headers (snd (linkHeader a k v s)))"
    "hash_fn (headers (snd (linkHeader a k v s))) = hash_fn (headers s)"
    "equals_fn (headers (snd (linkHeader a k v s))) = equals_fn (headers s)"
  using put_shape [OF assms, of a "mem s" k v] set_value_shape [OF assms]
  by (auto simp: linkHeader_def Let_def setEntryValue_def split: option.split)

text \<open>The shape of the header map, with the two functions it was created with.\<close>

definition headerMapOk :: "native_core \<Rightarrow> bool" where
  "headerMapOk c \<longleftrightarrow> (case c of (b, hm, r) \<Rightarrow> mapShape hm \<and> hash_fn hm = hdrHash \<and> equals_fn hm = hdrEquals)"

lemma headerMapOk_native:
  "headerMapOk (nativeCore s) \<longleftrightarrow>
     mapShape (headers s) \<and> hash_fn (headers s) = hdrHash \<and> equals_fn (headers s) = hdrEquals"
  by (simp add: headerMapOk_def nativeCore_def)

lemma headerMapOk_parts:
  assumes "headerMapOk (nativeCore s)"
  shows "headerMapOk (nativeCore (snd (beginResponse s)))" "headerMapOk (nativeCore (snd (linkHeader a k v s)))"
    "headerMapOk (nativeCore (noteLength n s))" "headerMapOk (nativeCore (snd (storePair r b c p q s)))"
  using assms clear_shape [of "headers s"] linkHeader_shape [of s a k v]
  by (auto simp: headerMapOk_native beginResponse_def releaseHeaders_def hashmapClear_def noteLength_def storePair_def
      headers_ensure_capacity_def oomThrow_def throwExn_def SET_defs Let_def)

interpretation header_map: entry_invariant headerMapOk
proof unfold_locales
  show "headerMapOk (nativeCore (snd (header_callback he p sz n s)))" if "headerMapOk (nativeCore s)"
    for s :: "'w native" and he p sz n
    using that by (simp add: header_callback_def Let_def case_prod_beta headerMapOk_parts)
  show "headerMapOk (b', x)" if "headerMapOk (b, x)" for b b' x using that by (simp add: headerMapOk_def)
  show "headerMapOk (b, snd (hashmapClear hm), pairs, n, bytes, 0, 0)" if "headerMapOk (b, hm, pairs, n, bytes, cnt, mx)"
    for b hm pairs n bytes cnt mx
    using that clear_shape [of hm] by (simp add: headerMapOk_def hashmapClear_def)
  show "headerMapOk (b, hm, pairs, n, bytes, 0, mx)" if "headerMapOk (b, hm, pairs, n, bytes, cnt, mx)"
    for b hm pairs n bytes cnt mx
    using that by (simp add: headerMapOk_def)
qed

text \<open>The block of the pair array has room for two pointers per item.\<close>

definition pairRoomOk :: "native_core \<Rightarrow> bool" where
  "pairRoomOk c \<longleftrightarrow> (case c of (b, hm, pairs, n, bytes, r) \<Rightarrow> sizeof_ptr * 2 * unat n \<le> bytes)"

lemma pairRoomOk_native: "pairRoomOk (nativeCore s) \<longleftrightarrow> sizeof_ptr * 2 * unat (headerBufSize s) \<le> pairsBytes s"
  by (simp add: pairRoomOk_def nativeCore_def)

lemma pairRoomOk_parts [simp]:
  "pairRoomOk (nativeCore (snd (beginResponse s))) = pairRoomOk (nativeCore s)"
  "pairRoomOk (nativeCore (snd (linkHeader a k v s))) = pairRoomOk (nativeCore s)"
  "pairRoomOk (nativeCore (noteLength n s)) = pairRoomOk (nativeCore s)"
  by (simp_all add: pairRoomOk_native beginResponse_def releaseHeaders_def linkHeader_def noteLength_def SET_defs Let_def
      split: option.split)

lemma pairRoomOk_storePair:
  assumes "pairRoomOk (nativeCore s)"
  shows "pairRoomOk (nativeCore (snd (storePair r b c p q s)))"
proof -
  have "unat (of_nat n :: u32) \<le> n" for n by (simp add: unat_of_nat)
  then have "sizeof_ptr * 2 * unat (of_nat n :: u32) \<le> sizeof_ptr * 2 * n" for n by simp
  then show ?thesis
    using assms by (simp add: pairRoomOk_native storePair_def headers_ensure_capacity_def oomThrow_def throwExn_def Let_def)
qed

interpretation pair_room: entry_invariant pairRoomOk
proof unfold_locales
  show "pairRoomOk (nativeCore (snd (header_callback he p sz n s)))" if "pairRoomOk (nativeCore s)"
    for s :: "'w native" and he p sz n
    using that by (simp add: header_callback_def Let_def case_prod_beta pairRoomOk_storePair)
qed (simp_all add: pairRoomOk_def)

end
