(* ===== verification/SessionLaws.thy ===== *)
theory SessionLaws
  imports DriverInvariants ResponseLaws
begin

text \<open>
  The lock of a connection over sequences of calls from Java: which functions touch it, the calls
  as a step relation, the states reachable from a created connection, and the invariant that the
  lock is free between calls.
\<close>

lemma busy_simps [simp]:
  "busy (throwThreadingException s) = busy s" "busy (throwExn e s) = busy s" "busy (logFault f s) = busy s"
  by (simp_all add: throwThreadingException_def throwExn_def logFault_def)

section \<open>The lock over sequences of calls\<close>

text \<open>A process that has followed a NULL pointer makes no further call.\<close>

definition crashed :: "'w native \<Rightarrow> bool" where
  "crashed s \<longleftrightarrow> NullAccess \<in> set (faults (mem s))"

definition closedError :: jexn where
  "closedError = ThrowException (Some []) ERROR_CLOSED 0"

text \<open>
  One call of Java that takes the lock, with any arguments and any answers of the environment.
  Java runs, and calls, only when no exception is pending any more.
\<close>

inductive api_call :: "'w curl_api \<Rightarrow> 'w native \<Rightarrow> 'w native \<Rightarrow> bool" for api where
  stepRead: "Curl_read api sc i10n buf off cnt s = Some (r, s') \<Longrightarrow> \<not> crashed s \<Longrightarrow> api_call api s s'"
| stepWrite: "Curl_write api sc i10n buf off cnt s = Some (r, s') \<Longrightarrow> \<not> crashed s \<Longrightarrow> api_call api s s'"
| stepCloseOutput: "Curl_closeOutput api sc i10n s = Some s' \<Longrightarrow> \<not> crashed s \<Longrightarrow> api_call api s s'"
| stepReset: "\<not> crashed s \<Longrightarrow> api_call api s (Curl_reset api s)"
| stepConfigure: "nativeConfigure api ce sc c s = Some (u, s') \<Longrightarrow> \<not> crashed s \<Longrightarrow> api_call api s s'"
| stepSetOptionInt: "\<not> crashed s \<Longrightarrow> api_call api s (Curl_setOptionInt v n s)"
| stepSetHeader: "\<not> crashed s \<Longrightarrow> api_call api s (Curl_setHeader re k vo kl vl s)"
| stepAddHeader: "\<not> crashed s \<Longrightarrow> api_call api s (Curl_addHeader re k va kl vl s)"
| stepClearHeaders: "\<not> crashed s \<Longrightarrow> api_call api s (Curl_clearHeaders s)"
| stepOutHeader: "\<not> crashed s \<Longrightarrow> api_call api s (snd (Curl_outHeader re je k kl s))"
| stepGetHeaders: "Curl_getHeaders je response s = Some (a, s') \<Longrightarrow> \<not> crashed s \<Longrightarrow> api_call api s s'"
| stepHeader: "\<not> crashed s \<Longrightarrow> api_call api s (snd (Curl_header stk je ko l s))"
| stepIntHeader: "\<not> crashed s \<Longrightarrow> api_call api s (snd (Curl_intHeader stk rc d ko l s))"

definition api_step :: "'w curl_api \<Rightarrow> 'w native \<Rightarrow> 'w native \<Rightarrow> bool" where
  "api_step api s s' \<longleftrightarrow> api_call api (s\<lparr>pending := False\<rparr>) s'"

section \<open>The contract of an entry point\<close>

text \<open>
  An entry point as a function on the native state, \<open>None\<close> for a call that never returns.  All of
  them refuse to work when the lock is taken: they raise the threading exception and do nothing
  else.  A guarded call also gives the lock back.
\<close>

locale refusing_call =
  fixes call :: "'w native \<Rightarrow> 'w native option"
  assumes refused: "busy s \<noteq> 0 \<Longrightarrow> call s = Some (throwThreadingException (s\<lparr>busy := 1\<rparr>))"
begin

lemma refused_result: "call s = Some s' \<Longrightarrow> busy s \<noteq> 0 \<Longrightarrow> s' = throwThreadingException (s\<lparr>busy := 1\<rparr>)"
  using refused by simp

end

locale guarded_call = refusing_call +
  assumes released: "call s = Some s' \<Longrightarrow> busy s = 0 \<Longrightarrow> busy s' = 0"
begin

lemma lock_unchanged: "call s = Some s' \<Longrightarrow> busy s' = 0 \<longleftrightarrow> busy s = 0"
  using released [of s s'] refused_result [of s s'] by (cases "busy s = 0") auto

end

lemma crashed_logFault [simp]: "crashed (logFault NullAccess s)"
  by (simp add: crashed_def logFault_def)

interpretation write_call: refusing_call "\<lambda>s. map_option snd (Curl_write api sc i10n buf off cnt s)"
  for api sc i10n buf off cnt
  by unfold_locales (simp add: Curl_write_def ACQUIRE_def)

interpretation setHeader_call: refusing_call "\<lambda>s. Some (Curl_setHeader re k vo kl vl s)" for re k vo kl vl
  by unfold_locales (simp add: Curl_setHeader_def ACQUIRE_def)

interpretation read_call: guarded_call "\<lambda>s. map_option snd (Curl_read api sc i10n buf off cnt s)"
  for api sc i10n buf off cnt
  by unfold_locales
     (auto simp: Curl_read_def ACQUIRE_def finishRead_def Let_def split: if_splits prod.splits option.splits)

interpretation closeOutput_call: guarded_call "Curl_closeOutput api sc i10n" for api sc i10n
  by unfold_locales (auto simp: Curl_closeOutput_def ACQUIRE_def Let_def split: if_splits prod.splits option.splits)

interpretation configure_call: guarded_call "\<lambda>s. map_option snd (nativeConfigure api ce sc c s)" for api ce sc c
  by unfold_locales (auto simp: nativeConfigure_def ACQUIRE_def Let_def split: if_splits prod.splits option.splits)

interpretation reset_call: guarded_call "\<lambda>s. Some (Curl_reset api s)" for api
  by unfold_locales (auto simp: Curl_reset_def ACQUIRE_def Let_def)

interpretation setOptionInt_call: guarded_call "\<lambda>s. Some (Curl_setOptionInt v n s)" for v n
  by unfold_locales (auto simp: Curl_setOptionInt_def ACQUIRE_def Let_def)

interpretation addHeader_call: guarded_call "\<lambda>s. Some (Curl_addHeader re k va kl vl s)" for re k va kl vl
  by unfold_locales (auto simp: Curl_addHeader_def ACQUIRE_def Let_def)

interpretation clearHeaders_call: guarded_call "\<lambda>s. Some (Curl_clearHeaders s)"
  by unfold_locales (auto simp: Curl_clearHeaders_def ACQUIRE_def Let_def)

interpretation outHeader_call: guarded_call "\<lambda>s. Some (snd (Curl_outHeader re je k kl s))" for re je k kl
  by unfold_locales (auto simp: Curl_outHeader_def ACQUIRE_def Let_def split: option.split)

interpretation getHeaders_call: guarded_call "\<lambda>s. map_option snd (Curl_getHeaders je response s)" for je response
  by unfold_locales (auto simp: Curl_getHeaders_def ACQUIRE_def Let_def split: prod.splits option.splits if_splits)

interpretation header_call: guarded_call "\<lambda>s. Some (snd (Curl_header stk je ko l s))" for stk je ko l
  by unfold_locales (auto simp: Curl_header_def ACQUIRE_def Let_def split: prod.splits option.splits if_splits)

interpretation intHeader_call: guarded_call "\<lambda>s. Some (snd (Curl_intHeader stk rc d ko l s))" for stk rc d ko l
  by unfold_locales (auto simp: Curl_intHeader_def ACQUIRE_def Let_def split: prod.splits option.splits if_splits)

lemmas refused_results = write_call.refused_result setHeader_call.refused_result read_call.refused_result
  closeOutput_call.refused_result configure_call.refused_result reset_call.refused_result
  setOptionInt_call.refused_result addHeader_call.refused_result clearHeaders_call.refused_result
  outHeader_call.refused_result getHeaders_call.refused_result header_call.refused_result
  intHeader_call.refused_result

lemmas released_results = read_call.released closeOutput_call.released configure_call.released
  reset_call.released setOptionInt_call.released addHeader_call.released clearHeaders_call.released
  outHeader_call.released getHeaders_call.released header_call.released intHeader_call.released

section \<open>Steps\<close>

inductive_cases api_callE: "api_call api s s'"

lemma call_locked:
  assumes "api_call api s s'" "busy s \<noteq> 0"
  shows "s' = throwThreadingException (s\<lparr>busy := 1\<rparr>)"
  using assms(1) by (rule api_callE) (use assms(2) refused_results in \<open>fastforce+\<close>)

lemma step_locked:
  assumes "api_step api s s'" "busy s \<noteq> 0"
  shows "s' = throwThreadingException (s\<lparr>busy := 1\<rparr>)"
  using call_locked [of api "s\<lparr>pending := False\<rparr>" s'] assms
  by (simp add: api_step_def throwThreadingException_def throwExn_def)

lemma write_free:
  assumes "Curl_write api sc i10n buf off cnt s = Some (r, s')" "busy s = 0"
  shows "busy s' = 0 \<or> closedError \<in> set (thrown s')"
  using assms
  by (auto simp: Curl_write_def ACQUIRE_def finishWrite_def throwOther_def throwExn_def closedError_def Let_def
      split: if_splits prod.splits option.splits)

lemma setHeader_free:
  assumes "busy s = 0"
  shows "busy (Curl_setHeader re k vo kl vl s) = 0 \<or> crashed (Curl_setHeader re k vo kl vl s)"
  using assms by (auto simp: Curl_setHeader_def ACQUIRE_def Let_def split: prod.split)

lemma call_free:
  assumes "api_call api s s'" "busy s = 0"
  shows "busy s' = 0 \<or> crashed s' \<or> closedError \<in> set (thrown s')"
  using assms(1)
proof (rule api_callE)
  show ?thesis if "Curl_write api sc i10n buf off cnt s = Some (r, s')" for sc i10n buf off cnt r
    using write_free [OF that assms(2)] by blast
  show ?thesis if "s' = Curl_setHeader re k vo kl vl s" for re k vo kl vl
    using setHeader_free [OF assms(2)] that by blast
qed (use assms(2) released_results in \<open>fastforce+\<close>)

lemma step_free: "api_step api s s' \<Longrightarrow> busy s = 0 \<Longrightarrow> busy s' = 0 \<or> crashed s' \<or> closedError \<in> set (thrown s')"
  unfolding api_step_def by (drule call_free) simp_all

lemma call_runs: "api_step api s s' \<Longrightarrow> \<not> crashed s"
  unfolding api_step_def by (erule api_callE) (simp_all add: crashed_def)

text \<open>
  The states of a connection.  \<open>getLastFd\<close> and \<open>dispose\<close> do not look at the lock.  After
  \<open>dispose\<close> Java makes no further call; the relation lets it, which only adds states.
\<close>

inductive reachable :: "'w curl_api \<Rightarrow> 'w native \<Rightarrow> bool" for api where
  created: "nativeCreate cr flags pairs m ja [] w = Some (Inr s) \<Longrightarrow> reachable api s"
| called: "reachable api s \<Longrightarrow> api_step api s s' \<Longrightarrow> reachable api s'"
| asked: "reachable api s \<Longrightarrow> \<not> crashed s \<Longrightarrow> reachable api (Curl_getLastFd getsock dup2 fd (s\<lparr>pending := False\<rparr>))"
| disposed: "reachable api s \<Longrightarrow> \<not> crashed s \<Longrightarrow> reachable api (snd (Curl_dispose api cleanup (s\<lparr>pending := False\<rparr>)))"

lemma busy_setopts [simp]: "busy (setopts os s) = busy s"
  unfolding setopts_def by (induction os arbitrary: s) (auto simp: setopt_def)

lemma reachable_lock:
  assumes "reachable api s"
  shows "busy s = 0 \<or> crashed s \<or> closedError \<in> set (thrown s)"
  using assms
proof induction
  case (created cr flags pairs m ja w s)
  then show ?case by (auto simp: nativeCreate_def zeroedData_def split: option.splits if_splits)
next
  case (called s s')
  show ?case
  proof (cases "busy s = 0")
    case True
    then show ?thesis using step_free called.hyps(2) by blast
  next
    case False
    have "\<not> crashed s" by (rule call_runs [OF called.hyps(2)])
    then have "closedError \<in> set (thrown s)" using called.IH False by blast
    then show ?thesis using step_locked [OF called.hyps(2) False]
      by (simp add: throwThreadingException_def throwExn_def)
  qed
next
  case (asked s getsock dup2 fd)
  then show ?case
    by (auto simp: Curl_getLastFd_def throwExn_def crashed_def split: option.split prod.split)
next
  case (disposed s cleanup)
  then show ?case by (simp add: Curl_dispose_def releaseHeaders_def crashed_def Let_def) blast
qed

section \<open>Invariants of reachable states\<close>

context entry_invariant
begin

lemma call_keeps:
  assumes "api_call api (s :: 'w native) s'" "holds s"
  shows "holds s'"
  using assms(1) by (rule api_callE)
    (use assms(2) in \<open>auto intro: reset_keeps simple_keeps header_keeps(1,2)
       dest: read_keeps write_keeps closeOutput_keeps configure_keeps header_keeps(3)\<close>)

lemma step_keeps: "api_step api (s :: 'w native) s' \<Longrightarrow> holds s \<Longrightarrow> holds s'"
  unfolding api_step_def by (drule call_keeps) simp_all

lemma reachable_holds:
  assumes "reachable api (s :: 'w native)"
    and created: "\<And>cr flags pairs m ja w s. nativeCreate cr flags pairs m ja [] w = Some (Inr (s :: 'w native)) \<Longrightarrow> holds s"
  shows "holds s"
  using assms(1)
proof induction
  case (asked s getsock dup2 fd)
  then show ?case by (simp add: Curl_getLastFd_def split: option.split prod.split)
next
  case (disposed s cleanup)
  then show ?case using disposed_keeps by simp
qed (use created step_keeps in \<open>blast+\<close>)

end

section \<open>The life of the lock\<close>

lemma locked_forever:
  assumes "(api_step api)\<^sup>*\<^sup>* s s'" "busy s = 1" "pending s"
  shows "\<exists>n. s' = s\<lparr>thrown := thrown s @ replicate n (ThrowException None ERROR_USE_SYNCHRONIZATION 0)\<rparr>"
  using assms
proof (induction rule: rtranclp_induct)
  case base
  show ?case by (rule exI [of _ 0]) simp
next
  case (step y z)
  then obtain n where y: "y = s\<lparr>thrown := thrown s @ replicate n (ThrowException None ERROR_USE_SYNCHRONIZATION 0)\<rparr>"
    by auto
  then have "busy y = 1" using step.prems by simp
  then have "z = throwThreadingException (y\<lparr>busy := 1\<rparr>)" using step_locked [OF step.hyps(2)] by simp
  then have "z = s\<lparr>thrown := thrown s @ replicate (Suc n) (ThrowException None ERROR_USE_SYNCHRONIZATION 0)\<rparr>"
    using step.prems by (simp add: y throwThreadingException_def throwExn_def replicate_append_same [symmetric])
  then show ?case ..
qed

text \<open>
  C7: the lock is free between calls.  Whatever calls Java makes on a created connection, with
  whatever arguments and answers of curl, the lock is free afterwards, but for two cases: the
  process has followed a NULL pointer, or \<open>write\<close> has raised the error \<open>ERROR_CLOSED\<close>.
\<close>

theorem lock_free_between_calls:
  assumes "reachable api s"
  shows "busy s = 0 \<or> crashed s \<or> closedError \<in> set (thrown s)"
  using reachable_lock [OF assms] .

definition idleApi :: "unit curl_api" where
  "idleApi = \<lparr>curl_multi_perform = (\<lambda>w. Finished (CURLM_OK, 0) w),
     curl_easy_pause_recv = (\<lambda>w. Finished CURLE_OK w), curl_easy_pause_send = (\<lambda>w. Finished CURLE_OK w),
     curl_multi_timeout = (\<lambda>w. (-1, w)), curl_multi_wait = (\<lambda>t w. ((CURLM_OK, 0), w)),
     curl_multi_info_read = (\<lambda>w. ((None, 0), w)), curl_multi_add_handle = id, curl_multi_remove_handle = id,
     curl_effective_url = (\<lambda>w. None), clock_gettime = (\<lambda>w. ((0, 0), w)), read_flag = (\<lambda>a w. (False, w)),
     easy_strerror = (\<lambda>c. []), multi_strerror = (\<lambda>c. []), location_key = 0\<rparr>"

definition demoCreated :: "unit native" where
  "demoCreated = setopts (createOptions 0)
     (zeroedData (freshMap hdrHash hdrEquals 5) (\<lambda>i. 0) demoMem (\<lambda>b. []) [] ())"

lemma mem_setopts [simp]: "mem (setopts os s) = mem s"
  unfolding setopts_def by (induction os arbitrary: s) (auto simp: setopt_def)

lemma default_buckets:
  fixes hf :: "'m \<Rightarrow> 'k \<Rightarrow> u32"
  shows "hashmapCreate a (ucast HEADER_BUF_SIZE_DEFAULT) hf eqf =
    Some (if malloc_ok a \<and> calloc_ok a then Some (freshMap hf eqf 5) else None :: ('m, 'k, 'v) Hashmap option)"
proof -
  have "bucketCountLoop (ucast HEADER_BUF_SIZE_DEFAULT * 4 div 3) 1 = Some 32" by code_simp
  then show ?thesis by (simp add: hashmapCreate_def freshMap_def calloc_succeeds_def)
qed

lemma created_shape: "mapShape (freshMap hf eqf 5)"
proof -
  have "powerOfTwoCount (2 ^ 5)" unfolding powerOfTwoCount_def by (rule exI [of _ 5]) simp
  then show ?thesis by (simp add: mapShape_def freshMap_def entries_def wellPlaced_def)
qed

lemma headers_setopts [simp]: "headers (setopts os s) = headers s"
  unfolding setopts_def by (induction os arbitrary: s) (auto simp: setopt_def)

lemma demo_created:
  "nativeCreate \<lparr>ctrl_ok = True, pairs_ok = True, map_res = \<lparr>malloc_ok = True, calloc_ok = True\<rparr>,
     easy_ok = True, multi_ok = True\<rparr> 0 (\<lambda>i. 0) demoMem (\<lambda>b. []) [] () = Some (Inr demoCreated)"
  by (simp add: nativeCreate_def default_buckets demoCreated_def)

lemma demo_cleared: "reachable idleApi (Curl_clearHeaders demoCreated)"
proof -
  have p: "pending demoCreated = False"
    unfolding demoCreated_def setopts_def by (rule fold_invariant [where Q = "\<lambda>x. True"]) (auto simp: setopt_def zeroedData_def)
  have "\<not> crashed demoCreated" by (simp add: demoCreated_def crashed_def zeroedData_def demoMem_def)
  then have "api_call idleApi demoCreated (Curl_clearHeaders demoCreated)" by (rule stepClearHeaders)
  moreover have "demoCreated\<lparr>pending := False\<rparr> = demoCreated" using p by (cases demoCreated) simp
  ultimately have "api_step idleApi demoCreated (Curl_clearHeaders demoCreated)" by (simp add: api_step_def)
  with created [OF demo_created] show ?thesis by (rule called)
qed

theorem lock_free_between_calls_witness:
  "busy (Curl_clearHeaders demoCreated) = 0 \<or> crashed (Curl_clearHeaders demoCreated) \<or>
   closedError \<in> set (thrown (Curl_clearHeaders demoCreated))"
  using lock_free_between_calls [OF demo_cleared] .

text \<open>
  C12: when the announced length has been uploaded, the next \<open>write\<close> raises \<open>ERROR_CLOSED\<close> without
  releasing the lock.  From then on the connection is lost: no sequence of calls, not even
  \<open>reset\<close>, that takes the lock does anything but raise the threading exception.
\<close>

theorem write_leaks_lock:
  assumes "busy s = 0" "uploadGoal s \<noteq> 0" "uploadGoal s \<le> uploadedCount s"
  shows "\<exists>s'. Curl_write api sc i10n buf off cnt s = Some (-1, s') \<and> busy s' = 1 \<and>
    thrown s' = thrown s @ [closedError] \<and>
    (\<forall>s''. (api_step api)\<^sup>*\<^sup>* s' s'' \<longrightarrow>
       (\<exists>n. s'' = s'\<lparr>thrown := thrown s' @ replicate n (ThrowException None ERROR_USE_SYNCHRONIZATION 0)\<rparr>))"
proof -
  let ?s' = "throwOther [] ERROR_CLOSED (s\<lparr>busy := 1\<rparr>)"
  have "Curl_write api sc i10n buf off cnt s = Some (-1, ?s')"
    using assms by (simp add: Curl_write_def ACQUIRE_def)
  moreover have "busy ?s' = 1" "pending ?s'" "thrown ?s' = thrown s @ [closedError]"
    by (simp_all add: throwOther_def throwExn_def closedError_def)
  ultimately show ?thesis using locked_forever by blast
qed

theorem write_leaks_lock_witness:
  "\<exists>s'. Curl_write idleApi False 0 (Some 0) 0 1 (demoCreated\<lparr>uploadGoal := 5, uploadedCount := 5\<rparr>) = Some (-1, s') \<and>
    busy s' = 1"
proof -
  have "busy (demoCreated\<lparr>uploadGoal := 5, uploadedCount := 5\<rparr>) = 0"
    by (simp add: demoCreated_def zeroedData_def)
  then show ?thesis
    using write_leaks_lock [of "demoCreated\<lparr>uploadGoal := 5, uploadedCount := 5\<rparr>" idleApi False 0 "Some 0" 0 1] by auto
qed

text \<open>
  C8: in every state reachable by calls from Java, whatever curl delivers and whatever the key
  functions answer on it, the header map is well formed: a power of two of buckets, every entry in
  the bucket that its hash selects, an exact size.  So no lookup leaves the bucket array.
\<close>

theorem header_map_well_formed:
  assumes "reachable api s"
  shows "mapShape (headers s) \<and> hash_fn (headers s) = hdrHash \<and> equals_fn (headers s) = hdrEquals \<and>
    bucketIndex (headers s) m k < length (buckets (headers s))"
proof -
  have "headerMapOk (nativeCore s)" if "nativeCreate cr flags pairs m ja [] w = Some (Inr s)"
    for cr flags pairs m ja w and s :: "'a native"
    using that created_shape by (auto simp: nativeCreate_def default_buckets zeroedData_def headerMapOk_native freshMap_def split: if_splits)
  then have "headerMapOk (nativeCore s)" using header_map.reachable_holds [OF assms] by blast
  then show ?thesis using shape_index [of "headers s" m k] by (simp add: headerMapOk_native)
qed

theorem header_map_well_formed_witness:
  "bucketIndex (headers (Curl_clearHeaders demoCreated)) demoMem 25 < length (buckets (headers (Curl_clearHeaders demoCreated)))"
  using header_map_well_formed [of idleApi "Curl_clearHeaders demoCreated" demoMem 25]
    demo_cleared by simp

text \<open>
  C30: whatever line curl passes and whatever the allocator answers, \<open>header_callback\<close> writes only to
  slots of the pair array that the array has: it grows the array first, with no wrap-around in the
  computation of its size.  The block behind the array has that size in every reachable state, and
  then no write of the callback is outside the block.
\<close>

theorem header_callback_pair_writes_in_bounds:
  "{i. headerPairs (snd (header_callback he buffer sz nitems s)) i \<noteq> headerPairs s i}
     \<subseteq> {..< 2 * unat (headerBufSize (snd (header_callback he buffer sz nitems s)))} \<and>
   (sizeof_ptr * 2 * unat (headerBufSize s) \<le> pairsBytes s \<longrightarrow>
     (\<forall>i. headerPairs (snd (header_callback he buffer sz nitems s)) i \<noteq> headerPairs s i \<longrightarrow>
        sizeof_ptr * (i + 1) \<le> pairsBytes (snd (header_callback he buffer sz nitems s)))) \<and>
   (reachable api s \<longrightarrow> sizeof_ptr * 2 * unat (headerBufSize s) \<le> pairsBytes s)"
proof (intro conjI impI allI)
  let ?s' = "snd (header_callback he buffer sz nitems s)"
  show sub: "{i. headerPairs ?s' i \<noteq> headerPairs s i} \<subseteq> {..< 2 * unat (headerBufSize ?s')}"
    by (rule header_callback_pairs)
  show "sizeof_ptr * (i + 1) \<le> pairsBytes ?s'"
    if room: "sizeof_ptr * 2 * unat (headerBufSize s) \<le> pairsBytes s" and i: "headerPairs ?s' i \<noteq> headerPairs s i" for i
  proof -
    have "sizeof_ptr * 2 * unat (headerBufSize ?s') \<le> pairsBytes ?s'"
      using pair_room.header [of s he buffer sz nitems] room by (simp add: pairRoomOk_native)
    moreover have "i + 1 \<le> 2 * unat (headerBufSize ?s')" using sub i by auto
    then have "sizeof_ptr * (i + 1) \<le> sizeof_ptr * (2 * unat (headerBufSize ?s'))" by (rule mult_le_mono2)
    ultimately show ?thesis by simp
  qed
  show "sizeof_ptr * 2 * unat (headerBufSize s) \<le> pairsBytes s" if "reachable api s"
  proof -
    have "pairRoomOk (nativeCore t)" if "nativeCreate cr flags pairs m ja [] w = Some (Inr t)"
      for cr flags pairs m ja w and t :: "'a native"
      using that core_setopts [of "createOptions flags"]
      by (auto simp: nativeCreate_def split: if_splits option.splits) (simp add: pairRoomOk_native zeroedData_def)
    then show ?thesis using pair_room.reachable_holds [OF that] by (simp add: pairRoomOk_native)
  qed
qed

theorem header_callback_pair_writes_in_bounds_witness:
  "{i. headerPairs (snd (header_callback demoEnv 1000 1 9 demoCreated)) i \<noteq> headerPairs demoCreated i}
     \<subseteq> {i. sizeof_ptr * (i + 1) \<le> pairsBytes (snd (header_callback demoEnv 1000 1 9 demoCreated))}"
  using header_callback_pair_writes_in_bounds [of demoEnv 1000 1 9 demoCreated idleApi]
    created [OF demo_created, of idleApi] by blast

end
