(* ===== verification/CallbackLaws.thy ===== *)
theory CallbackLaws
  imports Callbacks ResponseLaws
begin

text \<open>
  The body of a response goes through \<open>write_callback\<close>, the body of a request through
  \<open>read_callback\<close>, in pieces whose sizes are chosen by the other side.  The laws of this theory
  are about one call; the streams of bytes are built from them.
\<close>

section \<open>Receiving\<close>

lemma array_write_ok:
  assumes "0 \<le> readOffset s" "readOffset s + int n \<le> int (length (jarrays s b))" "n \<le> length data"
  shows "array_write b data (int n) s = s\<lparr>jarrays := (jarrays s)(b :=
    take (nat (readOffset s)) (jarrays s b) @ take n data @ drop (nat (readOffset s) + n) (jarrays s b))\<rparr>"
  using assms by (simp add: array_write_def Let_def nat_add_distrib)

text \<open>One call with \<open>c\<close> bytes of room and \<open>r\<close> bytes of \<open>data\<close> already consumed.\<close>

lemma write_callback_array:
  assumes "bufferForReceiving s = Some b" "readOverflow s = int r" "r < length data"
    and "countToRead s = int c" "0 < c" "readOffset s = int off" "off + c \<le> length (jarrays s b)"
    and n: "n = min c (length data - r)"
  shows "write_callback sc data s =
    (let s' = s\<lparr>jarrays := (jarrays s)(b :=
           take off (jarrays s b) @ take n (drop r data) @ drop (off + n) (jarrays s b)),
           readOffset := int (off + n), countToRead := int (c - n)\<rparr>
     in if n = length data - r then (length data, s'\<lparr>readOverflow := 0\<rparr>)
        else (CURL_READFUNC_PAUSE, SET_RECV_PAUSED (s'\<lparr>readOverflow := int (r + n)\<rparr>)))"
proof -
  have rd: "(if int c > int (length (drop r data)) then int (length (drop r data)) else int c) = int n"
    using n by simp
  have arr: "array_write b (drop r data) (int n) s = s\<lparr>jarrays := (jarrays s)(b :=
      take off (jarrays s b) @ take n (drop r data) @ drop (off + n) (jarrays s b))\<rparr>"
    using array_write_ok [of s n b "drop r data"] assms by simp
  have put: "putInput sc (drop r data) s = (int n, s\<lparr>jarrays := (jarrays s)(b :=
      take off (jarrays s b) @ take n (drop r data) @ drop (off + n) (jarrays s b)), readOffset := int (off + n)\<rparr>)"
    unfolding putInput_def assms(1,4) option.case Let_def rd arr using assms(6) by simp
  have whole: "int n = int (length data) - int r \<longleftrightarrow> n = length data - r" using assms(3) by auto
  have left: "int c - int n = int (c - n)" using n by (simp add: of_nat_diff)
  have room: "length data \<le> c + r" if "n = length data - r" using that n by linarith
  have "\<not> int r \<ge> int (length data)" "int c \<noteq> 0" using assms(3,5) by auto
  then show ?thesis
    unfolding write_callback_def Let_def assms(2,4) nat_int put prod.case whole
    by (cases "n = length data - r") (simp_all add: left assms(2,4) of_nat_diff room)
qed

section \<open>Sending\<close>

text \<open>One call of \<open>read_callback\<close>; it also pauses when it has passed on the last byte of the body.\<close>

lemma read_callback_array:
  assumes "\<not> hasState s STATE_DONE_SENDING" "bufferForSending s = Some b"
    and "countToWrite s = int c" "0 < c" "writeOffset s = int off" "off + c \<le> length (jarrays s b)" "n = min c room"
  shows "read_callback 1 room s =
    ((n, take n (drop off (jarrays s b))),
     (if uploadGoal s \<noteq> 0 \<and> uploadGoal s \<le> uploadedCount s + of_nat n then SET_SEND_PAUSED else id)
       (s\<lparr>writeOffset := int (off + n), countToWrite := int (c - n),
          uploadedCount := if uploadGoal s = 0 then uploadedCount s else uploadedCount s + of_nat n\<rparr>))"
proof -
  have "array_read b (int n) s = (take n (drop off (jarrays s b)), s)"
    using assms(5-7) by (simp add: array_read_def Let_def)
  moreover have "(if int c > int room then int room else int c) = int n" using assms(7) by simp
  ultimately have "takeOutput room s = (int n, take n (drop off (jarrays s b)), s\<lparr>writeOffset := int (off + n)\<rparr>)"
    unfolding takeOutput_def assms(2,3) option.case Let_def using assms(5) by simp
  then show ?thesis
    using assms(1,3,4,7) by (simp add: read_callback_def noteUploaded_def SET_SEND_PAUSED_def Let_def of_nat_diff)
qed

lemma sint_promote_signed: "sint (promote_char True x) = sint x"
  by (rule u8_all) code_simp

lemma sint_promote_unsigned: "sint (promote_char False x) = uint x"
  by (rule u8_all) code_simp

text \<open>
  A read of a single byte, without an array, hands over the next byte of the stream in
  \<open>readOffset\<close>: its unsigned value where \<open>char\<close> is unsigned, but its signed value where \<open>char\<close>
  is signed, so that there the bytes from \<open>0x80\<close> on come out negative.
\<close>

definition byteValue :: "bool \<Rightarrow> u8 \<Rightarrow> int" where
  "byteValue sc x = (if sc then sint x else uint x)"

lemma sint_promote: "sint (promote_char sc x) = byteValue sc x"
  by (cases sc) (simp_all add: byteValue_def sint_promote_signed sint_promote_unsigned)

lemma of_int_byteValue [simp]: "(of_int (byteValue sc x) :: u8) = x"
  by (simp add: byteValue_def)

lemma byteValue_minus_one: "byteValue sc x = - 1 \<longleftrightarrow> sc \<and> x = 0xff"
proof -
  have "sint x = - 1 \<longleftrightarrow> x = 0xff" by (rule u8_all [of "\<lambda>x. sint x = - 1 \<longleftrightarrow> x = 0xff"]) code_simp
  moreover have "uint x \<noteq> - 1" using uint_ge_0 [of x] by linarith
  ultimately show ?thesis by (simp add: byteValue_def)
qed

lemma write_callback_single:
  assumes "bufferForReceiving s = None" "countToRead s = 1" "readOverflow s = int r" "r < length data"
  shows "write_callback sc data s =
    (let s' = s\<lparr>readOffset := byteValue sc (data ! r), countToRead := 0\<rparr>
     in if length data - r = 1 then (length data, s'\<lparr>readOverflow := 0\<rparr>)
        else (CURL_READFUNC_PAUSE, SET_RECV_PAUSED (s'\<lparr>readOverflow := int (r + 1)\<rparr>)))"
proof -
  have "hd (drop r data) = data ! r" using assms(4) by (simp add: hd_drop_conv_nth)
  moreover have "1 = int (length data) - int r \<longleftrightarrow> length data - r = 1" using assms(4) by auto
  ultimately show ?thesis
    using assms by (simp add: write_callback_def putInput_def sint_promote Let_def add.commute)
qed

end
