(* ===== verification/ResponseRun.thy ===== *)
theory ResponseRun
  imports ResponseLaws Perform
begin

text \<open>
  A response head from end to end: curl passes the status line, the header lines and the empty
  line to \<open>header_callback\<close>, one after the other, while it performs the transfer; afterwards Java
  asks for headers by name and for the status line through \<open>Curl_header\<close>.
\<close>

section \<open>The lines of a head\<close>

text \<open>
  A line with what the allocator answers while it is stored, and the place of curl's buffer that
  holds it.  curl gives up (\<open>bad\<close>) when the callback does not take the whole line.
\<close>

type_synonym head_line = "hdr_env \<times> addr \<times> u8 list"

primrec giveLines :: "('r, 'w) curl_run \<Rightarrow> head_line list \<Rightarrow> ('r, 'w) curl_run \<Rightarrow> ('r, 'w) curl_run" where
  "giveLines bad [] good = good"
| "giveLines bad (l # ls) good =
     (case l of (he, buf, line) \<Rightarrow>
        GiveHeader he buf line (\<lambda>n. if n = length line then giveLines bad ls good else bad))"

definition inBuffer :: "addr \<Rightarrow> u8 list \<Rightarrow> 'w native \<Rightarrow> 'w native" where
  "inBuffer buf line s = s\<lparr>mem := (mem s)\<lparr>chars := writeBytes (chars (mem s)) buf line\<rparr>\<rparr>"

definition afterLine :: "head_line \<Rightarrow> 'w native \<Rightarrow> 'w native" where
  "afterLine l s = (case l of (he, buf, line) \<Rightarrow> snd (answerHeader he buf line s))"

text \<open>
  The header of a line, of a sequence of lines, and of a status line.  The value is the trimmed text
  behind the colon together with the byte behind the line, whatever curl's memory has there when
  the callback runs: curl does not end the line with a NUL.
\<close>

definition parsedLine :: "head_line \<Rightarrow> 'w native \<Rightarrow> stored_header" where
  "parsedLine l s =
     (case l of (he, buf, line) \<Rightarrow> lineHeader (pairAddr he) line (chars (mem s) (buf + int (length line))))"

primrec parsedLines :: "head_line list \<Rightarrow> 'w native \<Rightarrow> stored_header list" where
  "parsedLines [] s = []"
| "parsedLines (l # ls) s = parsedLine l s # parsedLines ls (afterLine l s)"

definition parsedStatus :: "head_line \<Rightarrow> stored_header" where
  "parsedStatus l =
     (case l of (he, buf, line) \<Rightarrow> \<lparr>sblock = pairAddr he, sname = trimEndBytes line, svalue = []\<rparr>)"

text \<open>
  The conditions on a line: it is where no block is, the allocator answers with unused memory, and
  name and value are strings that the store can hold.
\<close>

definition goodSpace :: "stored_header \<Rightarrow> head_line \<Rightarrow> 'w native \<Rightarrow> bool" where
  "goodSpace h l s =
     (case l of (he, buf, line) \<Rightarrow>
        freshBlock (mem s) (pairAddr he) (blockSize h) \<and>
        outside (pairAddr he) (blockSize h) buf (length line) \<and>
        malloc_ok (entryRes he) \<and> realloc_ok he)"

definition goodLine :: "u8 list set \<Rightarrow> head_line \<Rightarrow> 'w native \<Rightarrow> bool" where
  "goodLine N l s =
     (case l of (he, buf, line) \<Rightarrow>
        let h = parsedLine l s in
        0x3a \<in> set line \<and>
        0 \<notin> set (sname h) \<and> 0 \<notin> set (svalue h) \<and> lower (sname h) \<in> N \<and>
        length (sname h) < 2 ^ 16 \<and> length (svalue h) < 2 ^ 16 \<and>
        unusedSpace (mem s) buf (length line) \<and> goodSpace h l s)"

primrec goodLines :: "u8 list set \<Rightarrow> head_line list \<Rightarrow> 'w native \<Rightarrow> bool" where
  "goodLines N [] s \<longleftrightarrow> True"
| "goodLines N (l # ls) s \<longleftrightarrow> goodLine N l s \<and> goodLines N ls (afterLine l s)"

definition goodStatus :: "head_line \<Rightarrow> 'w native \<Rightarrow> bool" where
  "goodStatus l s =
     (case l of (he, buf, line) \<Rightarrow>
        isStatusText line \<and> 0 \<notin> set (trimEndBytes line) \<and>
        goodSpace (parsedStatus l) l (snd (beginResponse (inBuffer buf line s))))"

section \<open>Running the callback over the lines\<close>

lemma memBytes_written: "memBytes (writeBytes c p bs) p (length bs) = bs"
  by (rule nth_equalityI) (auto simp: writeBytes_def)

lemma memBytes_written_next:
  "memBytes (writeBytes c p bs) p (Suc (length bs)) = bs @ [c (p + int (length bs))]"
  by (rule nth_equalityI) (auto simp: writeBytes_def nth_append less_Suc_eq)

lemma busy_storing [simp]:
  "busy (snd (beginResponse s)) = busy s" "busy (snd (linkHeader a k v s)) = busy s"
  "busy (snd (storePair r b c p q s)) = busy s" "busy (SET_SEEN_HEADER_END s) = busy s" "busy (logFault f s) = busy s"
  by (simp_all add: beginResponse_def releaseHeaders_def SET_defs linkHeader_def storePair_def logFault_def
      headers_ensure_capacity_def oomThrow_def throwExn_def Let_def split: option.split)

lemma busy_header_callback [simp]: "busy (snd (header_callback he p sz n s)) = busy s"
  by (simp add: header_callback_def Let_def case_prod_beta)

lemma busy_afterLine [simp]: "busy (afterLine l s) = busy s"
  by (simp add: afterLine_def answerHeader_def split: prod.split)

lemma answerHeader_buffer: "answerHeader he buf line s = header_callback he buf 1 (length line) (inBuffer buf line s)"
  by (simp add: answerHeader_def inBuffer_def)

context header_names
begin

lemma storeInv_buffer:
  assumes "storeInv N s st hs" "unusedSpace (mem s) buf (length line)"
  shows "storeInv N (inBuffer buf line s) st hs"
  unfolding inBuffer_def by (rule storeInv_memory [OF assms]) (auto simp: writeBytes_def)

lemma line_step:
  assumes inv: "storeInv N s st hs" and good: "goodLine N (he, buf, line) s" and room: "length hs + 2 < 2 ^ 16"
  shows "fst (answerHeader he buf line s) = length line"
    "storeInv N (afterLine (he, buf, line) s) st (hs @ [parsedLine (he, buf, line) s])"
proof -
  let ?s = "inBuffer buf line s" and ?b = "chars (mem s) (buf + int (length line))"
  have g: "storeInv N ?s st hs" using good by (intro storeInv_buffer [OF inv]) (simp add: goodLine_def Let_def)
  have bytes: "memBytes (chars (mem ?s)) buf (Suc (1 * length line)) = line @ [?b]"
    using memBytes_written_next [of "chars (mem s)" buf line] by (simp add: inBuffer_def)
  have "\<exists>s'. header_callback he buf 1 (length line) ?s = (1 * length line, s') \<and>
      storeInv N s' st (hs @ [parsedLine (he, buf, line) s]) \<and>
      blocks (mem s') = (blocks (mem ?s))(pairAddr he := Some (blockSize (parsedLine (he, buf, line) s))) \<and>
      busy s' = busy ?s"
    by (rule header_callback_line [OF g bytes])
       (use good room in \<open>auto simp: goodLine_def goodSpace_def parsedLine_def Let_def inBuffer_def
         freshBlock_def unusedSpace_def\<close>)
  then show "fst (answerHeader he buf line s) = length line"
    "storeInv N (afterLine (he, buf, line) s) st (hs @ [parsedLine (he, buf, line) s])"
    by (auto simp: answerHeader_buffer afterLine_def)
qed

lemma lines_run:
  assumes "storeInv N s st hs" "goodLines N ls s" "length hs + length ls + 1 < 2 ^ 16"
  shows "runCurl sc (giveLines bad ls good) s = runCurl sc good (fold afterLine ls s) \<and>
    storeInv N (fold afterLine ls s) st (hs @ parsedLines ls s)"
  using assms
proof (induction ls arbitrary: s hs)
  case (Cons l ls)
  obtain he buf line where l: "l = (he, buf, line)" by (cases l) auto
  have "goodLine N (he, buf, line) s" "length hs + 2 < 2 ^ 16" using Cons.prems(2,3) by (simp_all add: l)
  note step = line_step [OF Cons.prems(1) this]
  have "runCurl sc (giveLines bad (l # ls) good) s = runCurl sc (giveLines bad ls good) (afterLine l s)"
    using step(1) by (simp add: l afterLine_def case_prod_beta)
  then show ?case using Cons.IH [OF step(2)] Cons.prems(2,3) by (simp add: l)
qed simp

lemma status_step:
  assumes hm: "hashmapFor (keysIn N m0) hdrHash hdrEquals m0 (headers s)"
    and reset: "hasState s STATE_SEEN_HEADER_END \<or> entries (headers s) = [] \<and> headerPairCount s = 0"
    and good: "goodStatus (he, buf, line) s"
  shows "fst (answerHeader he buf line s) = length line"
    "storeInv N (afterLine (he, buf, line) s) (parsedStatus (he, buf, line)) []"
proof -
  let ?s = "inBuffer buf line s"
  have bytes: "memBytes (chars (mem ?s)) buf (1 * length line) = line"
    using memBytes_written [of "chars (mem s)" buf line] by (simp add: inBuffer_def)
  have same: "headers ?s = headers s" "hasState ?s = hasState s" "headerPairCount ?s = headerPairCount s"
    by (simp_all add: inBuffer_def hasState_def fun_eq_iff)
  have "\<exists>s'. header_callback he buf 1 (length line) ?s = (1 * length line, s') \<and>
      storeInv N s' (parsedStatus (he, buf, line)) []"
    by (rule header_callback_status [OF _ _ bytes, of m0])
       (use good hm reset in \<open>auto simp: goodStatus_def goodSpace_def parsedStatus_def same\<close>)
  then show "fst (answerHeader he buf line s) = length line"
    "storeInv N (afterLine (he, buf, line) s) (parsedStatus (he, buf, line)) []"
    by (auto simp: answerHeader_buffer afterLine_def)
qed

end

section \<open>The end of the head\<close>

lemma blank_line:
  assumes "memBytes (chars (mem s)) buf 2 = [0x0d, 0x0a]"
  shows "header_callback he buf 1 2 s = (2, SET_SEEN_HEADER_END s)"
proof -
  have at: "chars (mem s) buf = 0x0d" "chars (mem s) (buf + 1) = 0x0a"
    using assms by (auto simp: memBytes_def numeral_2_eq_2)
  then have "findColon (chars (mem s)) buf 2 0 = 2" by (simp add: findColon.simps)
  moreover have "endsCrlf (chars (mem s)) buf 2" "\<not> isStatusLine (chars (mem s)) buf 2"
    using at by (simp_all add: endsCrlf_def isStatusLine_def add.commute)
  ultimately show ?thesis by (simp add: header_callback_def)
qed

lemma storeInv_state [simp]: "storeInv N (s\<lparr>state := x\<rparr>) st hs = storeInv N s st hs"
  by (simp add: storeInv_def statusOk_def slotOk_def)

text \<open>Strings for Java: short ones character by character, long ones through \<open>NewStringUTF\<close>.\<close>

definition headerText :: "jvm_env \<Rightarrow> u8 list \<Rightarrow> jstring" where
  "headerText je v = (if length v \<le> MAX_LOCAL_ALLOC then jstr je v else decodeUtf je v)"

lemma cstring_strlen: "cstring m p = v \<Longrightarrow> strlen (chars m) p = length v"
  by (auto simp: cstring_def)

lemma Curl_header_text:
  assumes "busy s = 0" "string_ok je 0" "getHeader stk ko l (s\<lparr>busy := 1\<rparr>) = (r, s')"
    "map_option (cstring (mem s')) r = v"
  shows "fst (Curl_header stk je ko l s) = map_option (headerText je) v"
  using assms
  by (cases r) (auto simp: Curl_header_def ACQUIRE_def Let_def headerText_def cstring_strlen headerToString_fits)

context header_names
begin

lemma Curl_header_name:
  assumes inv: "storeInv N s st hs" and free: "busy s = 0" and "string_ok je 0"
    and key: "kb = map ucast (take (nat l) strKey)" "0 \<notin> set kb" "lower kb \<in> N"
    and stk: "unusedSpace (mem s) stk (Suc (length kb))"
  shows "fst (Curl_header stk je (Some strKey) l s) =
    (let same = sameName (lower kb) hs in if same = [] then None else Some (headerText je (svalue (last same))))"
proof -
  have "storeInv N (s\<lparr>busy := 1\<rparr>) st hs" "unusedSpace (mem (s\<lparr>busy := 1\<rparr>)) stk (Suc (length kb))"
    using inv stk by simp_all
  from getHeader_name [OF this(1) key this(2)] obtain s' where s': "storeInv N s' st hs"
    "getHeader stk (Some strKey) l (s\<lparr>busy := 1\<rparr>) =
      (let same = sameName (lower kb) hs in if same = [] then None else Some (sblock (last same) + 8), s')"
    by blast
  show ?thesis
    using Curl_header_text [OF free assms(3) s'(2) refl] value_string [OF last_stored [OF s'(1)]]
    by (auto simp: Let_def)
qed

lemma Curl_header_status:
  assumes inv: "storeInv N s st hs" and free: "busy s = 0" and "string_ok je 0"
  shows "fst (Curl_header stk je None 0 s) = Some (headerText je (sname st))"
proof -
  have "headerPairCount s \<noteq> 0" using inv by (auto simp: storeInv_def)
  then have g: "getHeader stk None 0 (s\<lparr>busy := 1\<rparr>) = (getSpecialHeader 0 (s\<lparr>busy := 1\<rparr>), s\<lparr>busy := 1\<rparr>)"
    by (simp add: getHeader_def)
  have "storeInv N (s\<lparr>busy := 1\<rparr>) st hs" using inv by simp
  from getSpecialHeader_slots(1) [OF this] name_string [OF storeInv_blocks [OF inv, of st]]
  show ?thesis using Curl_header_text [OF free assms(3) g refl] by simp
qed

end

definition crlf :: "u8 list" where
  "crlf = [0x0d, 0x0a]"

lemma end_step:
  assumes "unusedSpace (mem s) buf 2"
  shows "answerHeader he buf crlf s = (2, SET_SEEN_HEADER_END (inBuffer buf crlf s))"
proof -
  have "memBytes (chars (mem (inBuffer buf crlf s))) buf 2 = [0x0d, 0x0a]"
    using memBytes_written [of "chars (mem s)" buf crlf] by (simp add: inBuffer_def crlf_def numeral_2_eq_2)
  from blank_line [OF this, of he] show ?thesis by (simp add: answerHeader_buffer crlf_def numeral_2_eq_2)
qed

lemma SET_SEEN_HEADER_END_sets: "hasState (SET_SEEN_HEADER_END s) STATE_SEEN_HEADER_END"
  by (simp add: SET_defs hasState_def STATE_SEEN_HEADER_END_def flag_simps)

context header_names
begin

lemma head_run:
  fixes he :: hdr_env
  assumes hm: "hashmapFor (keysIn N m0) hdrHash hdrEquals m0 (headers s)"
    and reset: "hasState s STATE_SEEN_HEADER_END \<or> entries (headers s) = [] \<and> headerPairCount s = 0"
    and good: "goodStatus first s" "goodLines N ls (afterLine first s)" "length ls + 1 < 2 ^ 16"
    and ending: "unusedSpace (mem (fold afterLine (first # ls) s)) buf 2"
  defines "s1 \<equiv> fold afterLine (first # ls @ [(he, buf, crlf)]) s"
  shows "runCurl sc (giveLines bad (first # ls @ [(he, buf, crlf)]) k) s = runCurl sc k s1"
    "hasState s1 STATE_SEEN_HEADER_END" "storeInv N s1 (parsedStatus first) (parsedLines ls (afterLine first s))"
proof -
  obtain he0 buf0 line0 where f: "first = (he0, buf0, line0)" by (cases first) auto
  note status = status_step [OF hm reset, of he0 buf0 line0, folded f, OF good(1)]
  have run: "runCurl sc (giveLines bad ls k') (afterLine first s) = runCurl sc k' (fold afterLine (first # ls) s)"
    "storeInv N (fold afterLine (first # ls) s) (parsedStatus first) (parsedLines ls (afterLine first s))" for k'
    using lines_run [OF status(2) good(2), of sc bad k'] good(3) by simp_all
  have app: "giveLines bad (ls @ l) k = giveLines bad ls (giveLines bad l k)" for l
    by (induction ls) auto
  note stop = end_step [OF ending, of he]
  have s1: "s1 = SET_SEEN_HEADER_END (inBuffer buf crlf (fold afterLine (first # ls) s))"
    using stop by (simp add: s1_def afterLine_def [of "(he, buf, crlf)"])
  have "runCurl sc (giveLines bad (first # ls @ [(he, buf, crlf)]) k) s
      = runCurl sc (giveLines bad [(he, buf, crlf)] k) (fold afterLine (first # ls) s)"
    using status(1) run(1) by (simp add: f afterLine_def case_prod_beta app)
  then show "runCurl sc (giveLines bad (first # ls @ [(he, buf, crlf)]) k) s = runCurl sc k s1"
    using stop by (simp add: s1 crlf_def)
  show "hasState s1 STATE_SEEN_HEADER_END" by (simp add: s1 SET_SEEN_HEADER_END_sets)
  show "storeInv N s1 (parsedStatus first) (parsedLines ls (afterLine first s))"
    using storeInv_buffer [OF run(2), of buf crlf] ending by (simp add: s1 SET_defs crlf_def numeral_2_eq_2)
qed

end

section \<open>Properties\<close>

lemma busy_fold_afterLine [simp]: "busy (fold afterLine ls s) = busy s"
  by (induction ls arbitrary: s) simp_all

text \<open>
  C3: the response head from end to end.  While curl performs the transfer it passes a status
  line, any number of header lines and the empty line; every callback takes its whole line, so
  that curl goes on.  Afterwards the end of the head has been noted, \<open>Curl_header\<close> without a name
  returns the status line, and with a name in any case of the letters the value that arrived last
  under that name, or null when there was none.  The value is the trimmed text of its line behind the
  colon, together with the byte that curl's memory has behind the line.
\<close>

theorem response_head_readable:
  assumes "header_names N" "hashmapFor (keysIn N m0) hdrHash hdrEquals m0 (headers s)"
    and "hasState s STATE_SEEN_HEADER_END \<or> entries (headers s) = [] \<and> headerPairCount s = 0"
    and "goodStatus first s" "goodLines N ls (afterLine first s)" "length ls + 1 < 2 ^ 16"
    and "unusedSpace (mem (fold afterLine (first # ls) s)) buf 2"
    and "busy s = 0" "string_ok je 0"
    and "kb = map ucast (take (nat l) strKey)" "0 \<notin> set kb" "lower kb \<in> N"
    and "head = first # ls @ [(he, buf, crlf)]"
    and "unusedSpace (mem (fold afterLine head s)) stk (Suc (length kb))"
  shows "\<exists>s1. runCurl sc (giveLines bad head k) s = runCurl sc k s1 \<and>
    hasState s1 STATE_SEEN_HEADER_END \<and>
    fst (Curl_header stk je None 0 s1) = Some (headerText je (sname (parsedStatus first))) \<and>
    fst (Curl_header stk je (Some strKey) l s1) =
      (let same = sameName (lower kb) (parsedLines ls (afterLine first s))
       in if same = [] then None else Some (headerText je (svalue (last same))))"
proof (intro exI conjI)
  let ?s1 = "fold afterLine head s"
  note run = header_names.head_run [OF assms(1-7), where he = he, folded assms(13)]
  show "runCurl sc (giveLines bad head k) s = runCurl sc k ?s1" "hasState ?s1 STATE_SEEN_HEADER_END"
    using run(1,2) by simp_all
  have "busy ?s1 = 0" using assms(8) by simp
  note lookup = assms(1) run(3) this assms(9)
  show "fst (Curl_header stk je None 0 ?s1) = Some (headerText je (sname (parsedStatus first)))"
    by (rule header_names.Curl_header_status [OF lookup])
  show "fst (Curl_header stk je (Some strKey) l ?s1) =
      (let same = sameName (lower kb) (parsedLines ls (afterLine first s))
       in if same = [] then None else Some (headerText je (svalue (last same))))"
    by (rule header_names.Curl_header_name [OF lookup assms(10-12,14)])
qed

text \<open>The example: a fresh connection, a status line and one header.\<close>

lemma releaseLoop_blocks: "blocks (releaseLoop pairs n i m) q \<in> {blocks m q, None}"
  by (induction pairs n i m rule: releaseLoop.induct; subst releaseLoop.simps)
     (auto simp: cfree_def split: option.splits if_splits)

lemma storing_blocks [simp]:
  "blocks (mem (snd (linkHeader a k v s))) = blocks (mem s)" "blocks (mem (noteLength n s)) = blocks (mem s)"
  "blocks (mem (snd (storePair r b c p q s))) = blocks (mem s)" "blocks (mem (logFault f s)) = blocks (mem s)"
  "blocks (mem (SET_SEEN_HEADER_END s)) = blocks (mem s)"
  by (simp_all add: SET_defs linkHeader_def noteLength_def storePair_def logFault_def
      headers_ensure_capacity_def oomThrow_def throwExn_def Let_def split: option.split)

lemma beginResponse_blocks: "blocks (mem (snd (beginResponse s))) q \<in> {blocks (mem s) q, None}"
  using releaseLoop_blocks [of "headerPairs s" "unat (headerPairCount s)" 0 "mem s" q]
  by (auto simp: beginResponse_def releaseHeaders_def SET_defs Let_def)

lemma fillPair_blocks: "q \<noteq> p \<Longrightarrow> blocks (snd (fillPair p buffer kl vs vl m)) q = blocks m q"
  by (simp add: fillPair_def Let_def)

lemma header_callback_blocks:
  assumes "q \<noteq> pairAddr he"
  shows "blocks (mem (snd (header_callback he p sz n s))) q \<in> {blocks (mem s) q, None}"
  using assms beginResponse_blocks [of s q]
  by (auto simp: header_callback_def Let_def case_prod_beta fillPair_blocks)

lemma afterLine_blocks:
  assumes "blocks (mem (afterLine (he, buf, line) s)) q = Some n" "q \<noteq> pairAddr he"
  shows "blocks (mem s) q = Some n"
  using header_callback_blocks [OF assms(2), of buf 1 "length line" "inBuffer buf line s"] assms(1)
  by (simp add: afterLine_def answerHeader_buffer) (simp add: inBuffer_def)

definition demoStart :: "unit native" where
  "demoStart = demoNative\<lparr>headerPairCount := 0, mem := demoMem\<lparr>chars := (\<lambda>a. 0), blocks := (\<lambda>q. None)\<rparr>\<rparr>"

definition demoFirst :: head_line where
  "demoFirst = (demoEnv\<lparr>pairAddr := 100\<rparr>, 1000, bytesOf ''HTTP/1.1 200 OK'' @ crlf)"

definition demoSecond :: head_line where
  "demoSecond = (demoEnv, 1100, demoLine)"

lemma demo_head:
  "parsedStatus demoFirst = \<lparr>sblock = 100, sname = bytesOf ''HTTP/1.1 200 OK'', svalue = []\<rparr>"
  "parsedLine demoSecond (afterLine demoFirst demoStart) = demoHeader" "isStatusText (bytesOf ''HTTP/1.1 200 OK'' @ crlf)"
  "0 \<notin> set (trimEndBytes (bytesOf ''HTTP/1.1 200 OK'' @ crlf))" "0x3a \<in> set demoLine"
  "blockSize (parsedStatus demoFirst) = 25" "length demoLine = 9" "length (bytesOf ''HTTP/1.1 200 OK'' @ crlf) = 17"
  "length (sname demoHeader) = 3" "length (svalue demoHeader) = 2"
  by code_simp+

lemma demo_start:
  "hashmapFor (keysIn (set commonHeaders) demoMem) hdrHash hdrEquals demoMem (headers demoStart)"
  "entries (headers demoStart) = [] \<and> headerPairCount demoStart = 0" "busy demoStart = 0"
  by (simp_all add: demoStart_def demoNative_def freshMap_ok) (simp add: freshMap_def entries_def)

lemma demo_good_status: "goodStatus demoFirst demoStart"
proof -
  have "blocks (mem (snd (beginResponse (inBuffer 1000 line demoStart)))) q = None" for q line
    using beginResponse_blocks [of "inBuffer 1000 line demoStart" q] by (simp add: inBuffer_def demoStart_def)
  then show ?thesis
    using demo_head(3,4,6,8) demo_blocks
    by (simp add: goodStatus_def goodSpace_def demoFirst_def freshBlock_def unusedSpace_def outside_def)
qed

lemma demo_first_store:
  "storeInv (set commonHeaders) (afterLine demoFirst demoStart) (parsedStatus demoFirst) []"
  using common.status_step(2) [OF demo_start(1) disjI2 [OF demo_start(2)]] demo_good_status
  by (simp add: demoFirst_def)

lemma demo_first_blocks:
  assumes "blocks (mem (afterLine demoFirst demoStart)) q = Some n"
  shows "q = 100 \<and> n = 25"
proof -
  have "blocks (mem (afterLine demoFirst demoStart)) 100 = Some 25"
    using storeInv_blocks [OF demo_first_store, of "parsedStatus demoFirst"] demo_head(1,6)
    by (simp add: blockOk_def)
  moreover have "blocks (mem demoStart) q = Some n" if "q \<noteq> 100"
    using afterLine_blocks [OF assms [unfolded demoFirst_def]] that by simp
  ultimately show ?thesis using assms by (cases "q = 100") (auto simp: demoStart_def)
qed

lemma demo_good_line: "goodLine (set commonHeaders) demoSecond (afterLine demoFirst demoStart)"
proof -
  have "parsedLine (demoEnv, 1100, demoLine) (afterLine demoFirst demoStart) = demoHeader" using demo_head(2) by (simp add: demoSecond_def)
  moreover have "unusedSpace (mem (afterLine demoFirst demoStart)) 1100 9"
    "freshBlock (mem (afterLine demoFirst demoStart)) 2000 15"
    using demo_first_blocks by (fastforce simp: freshBlock_def unusedSpace_def outside_def)+
  ultimately show ?thesis
    using demo_head(5,7,9,10) demo_name demo_blocks
    by (simp add: goodLine_def goodSpace_def demoSecond_def outside_def)
qed

lemma demo_second_store:
  "storeInv (set commonHeaders) (afterLine demoSecond (afterLine demoFirst demoStart)) (parsedStatus demoFirst) [demoHeader]"
  using common.line_step(2) [OF demo_first_store demo_good_line [unfolded demoSecond_def]] demo_head(2)
  by (simp add: demoSecond_def)

lemma demo_second_blocks:
  assumes "blocks (mem (afterLine demoSecond (afterLine demoFirst demoStart))) q = Some n"
  shows "(q, n) \<in> {(100, 25), (2000, 15)}"
proof -
  have "blocks (mem (afterLine demoSecond (afterLine demoFirst demoStart))) 2000 = Some 15"
    using storeInv_blocks [OF demo_second_store, of demoHeader] demo_blocks(2)
    by (simp add: blockOk_def demoHeader_def)
  moreover have "blocks (mem (afterLine demoFirst demoStart)) q = Some n" if "q \<noteq> 2000"
    using afterLine_blocks [OF assms [unfolded demoSecond_def]] that by (simp add: demo_blocks)
  ultimately show ?thesis using assms demo_first_blocks [of q n] by (cases "q = 2000") auto
qed

theorem response_head_readable_witness:
  "\<exists>s1. runCurl True (giveLines (Finished 1 ()) [demoFirst, demoSecond, (demoEnv, 1200, crlf)] (Finished 0 ())) demoStart
       = (0 :: nat, s1) \<and>
     fst (Curl_header 5000 demoJvm (Some demoKey) 3 s1) = Some (headerText demoJvm (bytesOf ''15''))"
proof -
  let ?s2 = "afterLine demoSecond (afterLine demoFirst demoStart)"
  have buf: "unusedSpace (mem ?s2) 1200 2"
    using demo_second_blocks by (fastforce simp: unusedSpace_def outside_def)
  have "blocks (mem (afterLine (demoEnv, 1200, crlf) ?s2)) = blocks (mem ?s2)"
    using end_step [OF buf, of demoEnv] by (simp add: afterLine_def [of "(demoEnv, 1200, crlf)"]) (simp add: inBuffer_def)
  then have stk: "unusedSpace (mem (fold afterLine [demoFirst, demoSecond, (demoEnv, 1200, crlf)] demoStart)) 5000
      (Suc (length (bytesOf ''AGE'')))"
    using demo_second_blocks by (fastforce simp: unusedSpace_def outside_def bytesOf_def)
  have "string_ok demoJvm 0" by (simp add: demoJvm_def)
  from response_head_readable [OF common.header_names_axioms demo_start(1) disjI2 [OF demo_start(2)]
      demo_good_status _ _ _ demo_start(3) this demo_key(1) [symmetric] demo_key(2,3) _ stk,
      of "[demoSecond]" 1200 demoEnv True "Finished 1 ()" "Finished (0 :: nat) ()"]
  obtain s1 where s1: "runCurl True (giveLines (Finished 1 ()) [demoFirst, demoSecond, (demoEnv, 1200, crlf)] (Finished 0 ())) demoStart
      = (0 :: nat, s1\<lparr>ext := ()\<rparr>)"
    "fst (Curl_header 5000 demoJvm (Some demoKey) 3 s1) = Some (headerText demoJvm (bytesOf ''15''))"
    using buf demo_good_line demo_key(4,5) demo_head(2) by auto
  then show ?thesis by (intro exI [of _ s1]) simp
qed

end
