(* ===== verification/BodyStream.thy ===== *)
theory BodyStream
  imports SessionLaws CallbackLaws ResponseRun
begin

text \<open>
  The body of a response as a stream of bytes.  curl has the body in blocks of any sizes and keeps a
  block that the callback did not take whole; \<open>read\<close>, with the callback, the pause and the loop of
  \<open>curlPerform\<close>, refines reading from the concatenation of the blocks.
\<close>

section \<open>A body in blocks\<close>

text \<open>
  The state of curl: the lines of the head and the blocks of the body that are still to be delivered,
  whether it is paused, and how far the transfer is: under way, completed with the message about it
  still in the queue, or with that message taken.  A block whose delivery was answered with a pause
  is delivered again from its start.
\<close>

datatype progress = Under_way | Completed | Reported

type_synonym body = "head_line list \<times> bool \<times> u8 list list \<times> progress"

definition ended :: "progress \<Rightarrow> progress" where
  "ended pr = (if pr = Under_way then Completed else pr)"

primrec deliver :: "(u8 list list \<Rightarrow> 'r) \<Rightarrow> progress \<Rightarrow> u8 list list \<Rightarrow> ('r, body) curl_run" where
  "deliver res pr [] = Finished (res []) ([], False, [], ended pr)"
| "deliver res pr (d # ds) =
     GiveData d (\<lambda>n. if n = length d then deliver res pr ds else Finished (res (d # ds)) ([], True, d # ds, pr))"

text \<open>\<open>curl_easy_pause\<close> delivers the block it kept; the transfer only goes on in \<open>curl_multi_perform\<close>.\<close>

definition unpauseRecv :: "body \<Rightarrow> (CURLcode, body) curl_run" where
  "unpauseRecv w =
     (case w of (head, paused, ds, pr) \<Rightarrow>
        (case ds of
           [] \<Rightarrow> Finished CURLE_OK ([], False, [], pr)
         | d # ds \<Rightarrow>
             GiveData d (\<lambda>n. Finished CURLE_OK ([], if n = length d then (False, ds, pr) else (True, d # ds, pr)))))"

text \<open>One transfer is added, so that the number of running transfers is 1 or 0.\<close>

definition running :: "u8 list list \<Rightarrow> CURLMcode \<times> int" where
  "running ds = (CURLM_OK, if ds = [] then 0 else 1)"

definition performRecv :: "body \<Rightarrow> (CURLMcode \<times> int, body) curl_run" where
  "performRecv w =
     (case w of (head, paused, ds, pr) \<Rightarrow>
      if paused then Finished (CURLM_OK, 1) w
      else giveLines (Finished (CURLM_OTHER 1, 0) w) head (deliver running pr ds))"

definition takeMessage :: "body \<Rightarrow> (CURLMsg option \<times> int) \<times> body" where
  "takeMessage w =
     (case w of (head, paused, ds, pr) \<Rightarrow>
      if pr = Completed then ((Some (CURLMSG_DONE CURLE_OK), 0), (head, paused, ds, Reported))
      else ((None, 0), w))"

text \<open>
  A server that sends a response, as curl presents it: nothing else happens, nobody interrupts, and
  when all blocks are delivered the end of the transfer is reported once.
\<close>

definition servesBody :: "body curl_api \<Rightarrow> bool" where
  "servesBody api \<longleftrightarrow>
     (\<forall>w. curl_easy_pause_recv api w = unpauseRecv w \<and> curl_multi_perform api w = performRecv w \<and>
          curl_multi_info_read api w = takeMessage w \<and> curl_multi_add_handle api w = w \<and>
          snd (clock_gettime api w) = w \<and> (\<forall>a. read_flag api a w = (False, w)))"

text \<open>What of the body is still to come: \<open>readOverflow\<close> bytes of the kept block have been read.\<close>

definition bodyAt :: "body native \<Rightarrow> u8 list \<Rightarrow> bool" where
  "bodyAt s rest \<longleftrightarrow>
     (let (head, paused, ds, pr) = ext s; r = nat (readOverflow s) in
      head = [] \<and> rest = drop r (concat ds) \<and> 0 \<le> readOverflow s \<and>
      [] \<notin> set ds \<and> (\<forall>d \<in> set ds. length d < CURL_READFUNC_PAUSE) \<and> (ds = [] \<or> pr = Under_way) \<and>
      hasState s STATE_RECV_PAUSED = paused \<and>
      (if paused then ds \<noteq> [] \<and> r < length (hd ds) else r = 0))"

section \<open>Receiving blocks\<close>

text \<open>
  Where received bytes go: into an array, from an offset on, or, without an array, into \<open>readOffset\<close>,
  where the value of the last one is kept.
\<close>

definition putBytes :: "jref option \<Rightarrow> nat \<Rightarrow> u8 list \<Rightarrow> (jref \<Rightarrow> u8 list) \<Rightarrow> jref \<Rightarrow> u8 list" where
  "putBytes buf off bs arrays =
     (case buf of
        None \<Rightarrow> arrays
      | Some b \<Rightarrow> arrays(b := take off (arrays b) @ bs @ drop (off + length bs) (arrays b)))"

definition nextOffset :: "bool \<Rightarrow> jref option \<Rightarrow> u8 list \<Rightarrow> int \<Rightarrow> int" where
  "nextOffset sc buf bs off =
     (case buf of
        None \<Rightarrow> if bs = [] then off else byteValue sc (last bs)
      | Some b \<Rightarrow> off + int (length bs))"

lemma put_nothing [simp]: "putBytes buf off [] arrays = arrays" "nextOffset sc buf [] x = x"
  by (simp_all add: putBytes_def nextOffset_def split: option.split)

text \<open>What a number of received bytes does to the state: the array and the counters; no other flag.\<close>

definition receives :: "bool \<Rightarrow> jref option \<Rightarrow> u8 list \<Rightarrow> 'w native \<Rightarrow> 'w native \<Rightarrow> bool" where
  "receives sc buf bs s s' \<longleftrightarrow>
     jarrays s' = putBytes buf (nat (readOffset s)) bs (jarrays s) \<and>
     readOffset s' = nextOffset sc buf bs (readOffset s) \<and> countToRead s' = countToRead s - int (length bs) \<and>
     bufferForReceiving s' = bufferForReceiving s \<and> easyOpts s' = easyOpts s \<and> thrown s' = thrown s \<and>
     busy s' = busy s \<and> (\<forall>k. k \<noteq> 3 \<longrightarrow> bit (state s') k = bit (state s) k)"

text \<open>
  A state that waits for at most \<open>countToRead\<close> bytes: in an array with room for them, or for a single
  byte.
\<close>

definition hasRoom :: "jref option \<Rightarrow> int \<Rightarrow> nat \<Rightarrow> (jref \<Rightarrow> u8 list) \<Rightarrow> bool" where
  "hasRoom buf off c arrays \<longleftrightarrow>
     (case buf of None \<Rightarrow> c \<le> 1 | Some b \<Rightarrow> 0 \<le> off \<and> nat off + c \<le> length (arrays b))"

definition wants :: "jref option \<Rightarrow> nat \<Rightarrow> 'w native \<Rightarrow> bool" where
  "wants buf c s \<longleftrightarrow>
     bufferForReceiving s = buf \<and> countToRead s = int c \<and> hasRoom buf (readOffset s) c (jarrays s) \<and>
     writeFunction s = Write_callback"

lemma flag_frame [simp]:
  assumes "f \<in> {SET_RECV_PAUSED, SET_RECV_UNPAUSED, SET_NEED_INPUT, SET_NEED_NO_INPUT,
    SET_SEND_PAUSED, SET_SEND_UNPAUSED, SET_NEED_OUTPUT, SET_NEED_NO_OUTPUT, SET_DONE_SENDING}"
  shows "jarrays (f s) = jarrays s" "readOffset (f s) = readOffset s" "countToRead (f s) = countToRead s"
    "bufferForReceiving (f s) = bufferForReceiving s" "easyOpts (f s) = easyOpts s" "thrown (f s) = thrown s"
    "busy (f s) = busy s" "ext (f s) = ext s" "readOverflow (f s) = readOverflow s" "uploadGoal (f s) = uploadGoal s" "uploadedCount (f s) = uploadedCount s"
    "bufferForSending (f s) = bufferForSending s" "countToWrite (f s) = countToWrite s" "writeOffset (f s) = writeOffset s"
    "connTimeout (f s) = connTimeout s" "readTimeout (f s) = readTimeout s"
  using assms by (auto simp: SET_defs)

lemma receives_nothing [simp]: "receives sc buf [] s s"
  by (simp add: receives_def)

lemma receives_wants:
  assumes "receives sc buf bs s s'" "wants buf c s" "length bs \<le> c"
  shows "wants buf (c - length bs) s'"
proof -
  have "hasRoom buf (readOffset s') (c - length bs) (jarrays s')"
    using assms by (cases buf) (auto simp: receives_def wants_def hasRoom_def putBytes_def nextOffset_def nat_add_distrib)
  then show ?thesis using assms by (auto simp: receives_def wants_def of_nat_diff writeFunction_def)
qed

lemma put_more:
  assumes "hasRoom buf off c arrays" "length bs + length bs' \<le> c"
  shows "putBytes buf (nat (nextOffset sc buf bs off)) bs' (putBytes buf (nat off) bs arrays) =
      putBytes buf (nat off) (bs @ bs') arrays"
    "nextOffset sc buf bs' (nextOffset sc buf bs off) = nextOffset sc buf (bs @ bs') off"
proof -
  define k where "k = nat off"
  show "putBytes buf (nat (nextOffset sc buf bs off)) bs' (putBytes buf (nat off) bs arrays) =
      putBytes buf (nat off) (bs @ bs') arrays"
  proof (cases buf)
    case (Some b)
    then have "nat (nextOffset sc buf bs off) = k + length bs" "k + length bs + length bs' \<le> length (arrays b)"
      using assms by (auto simp: hasRoom_def nextOffset_def k_def nat_add_distrib)
    then show ?thesis by (simp add: Some putBytes_def k_def [symmetric] ac_simps)
  qed (simp add: putBytes_def)
  show "nextOffset sc buf bs' (nextOffset sc buf bs off) = nextOffset sc buf (bs @ bs') off"
    by (simp add: nextOffset_def split: option.split)
qed

lemma receives_more:
  assumes "receives sc buf bs s s1" "receives sc buf bs' s1 s2" "wants buf c s" "length bs + length bs' \<le> c"
  shows "receives sc buf (bs @ bs') s s2"
  using assms put_more [of buf "readOffset s" c "jarrays s" bs bs' sc] by (simp add: receives_def wants_def)

lemma write_callback_block:
  assumes "wants buf c s" "0 < c" "readOverflow s = int r" "r < length d" "length d < CURL_READFUNC_PAUSE"
  shows "\<exists>s'. write_callback sc d s = (if length d - r \<le> c then length d else CURL_READFUNC_PAUSE, s') \<and>
    receives sc buf (take c (drop r d)) s s' \<and> ext s' = ext s \<and>
    readOverflow s' = (if length d - r \<le> c then 0 else int (r + c)) \<and>
    hasState s' STATE_RECV_PAUSED = (hasState s STATE_RECV_PAUSED \<or> c < length d - r)"
proof (cases buf)
  case (Some b)
  define n where "n = min c (length d - r)"
  define off where "off = nat (readOffset s)"
  have whole: "n = length d - r \<longleftrightarrow> length d - r \<le> c" by (auto simp: n_def)
  have w: "bufferForReceiving s = Some b" "countToRead s = int c" "readOffset s = int off"
    "off + c \<le> length (jarrays s b)"
    using assms(1) by (auto simp: wants_def hasRoom_def off_def Some)
  have len: "length (take c (drop r d)) = n" "take n (drop r d) = take c (drop r d)" by (auto simp: n_def min_def)
  show ?thesis
    using write_callback_array [OF w(1) assms(3,4) w(2) assms(2) w(3,4) n_def, of sc]
    by (cases "length d - r \<le> c")
       (auto simp: whole Let_def receives_def putBytes_def nextOffset_def Some len w off_def [symmetric] flag_simps
          of_nat_diff n_def)
next
  case None
  have w: "bufferForReceiving s = None" "countToRead s = 1" and c: "c = 1"
    using assms(1,2) by (auto simp: wants_def hasRoom_def None)
  have one: "take 1 (drop r d) = [d ! r]" using assms(4) by (simp add: Cons_nth_drop_Suc [symmetric])
  have "length d - r \<le> 1 \<longleftrightarrow> length d - r = 1" using assms(4) by linarith
  then show ?thesis
    unfolding c one using write_callback_single [OF w assms(3,4), of sc]
    by (cases "length d - r = 1")
       (auto simp: Let_def receives_def putBytes_def nextOffset_def None w flag_simps)
qed

text \<open>The body after a block: what the state says about the rest of the body.\<close>

definition blocksOk :: "u8 list list \<Rightarrow> bool" where
  "blocksOk ds \<longleftrightarrow> [] \<notin> set ds \<and> (\<forall>d \<in> set ds. length d < CURL_READFUNC_PAUSE)"

lemma bodyAt_parts:
  "bodyAt s rest \<longleftrightarrow>
     (\<exists>paused ds pr r. ext s = ([], paused, ds, pr) \<and> readOverflow s = int r \<and> rest = drop r (concat ds) \<and> blocksOk ds \<and>
        (ds = [] \<or> pr = Under_way) \<and> hasState s STATE_RECV_PAUSED = paused \<and>
        (if paused then ds \<noteq> [] \<and> r < length (hd ds) else r = 0))"
  by (cases "ext s") (auto simp: bodyAt_def blocksOk_def Let_def dest: zero_le_imp_eq_int)

lemma bodyAtI:
  assumes "ext s = ([], paused, ds, pr)" "readOverflow s = int r" "blocksOk ds" "ds = [] \<or> pr = Under_way"
    and "hasState s STATE_RECV_PAUSED = paused" "if paused then ds \<noteq> [] \<and> r < length (hd ds) else r = 0"
  shows "bodyAt s (drop r (concat ds))"
  unfolding bodyAt_parts using assms by blast

text \<open>All blocks, to a callback that has not paused; the last one may be kept.\<close>

lemma deliver_receives:
  assumes "wants buf c s" "readOverflow s = 0" "\<not> hasState s STATE_RECV_PAUSED" "blocksOk ds" "ds = [] \<or> pr = Under_way"
  shows "\<exists>s' ds'. runCurl sc (deliver res pr ds) s = (res ds', s') \<and> receives sc buf (take c (concat ds)) s s' \<and>
    bodyAt s' (drop c (concat ds)) \<and> ext s' = ([], ds' \<noteq> [], ds', if ds' = [] then ended pr else pr) \<and>
    (ds' = [] \<longleftrightarrow> length (concat ds) \<le> c)"
  using assms
proof (induction ds arbitrary: s c)
  case Nil
  have "receives sc buf [] s (s\<lparr>ext := ([], False, [], ended pr)\<rparr>)" by (simp add: receives_def)
  then show ?case using Nil.prems by (auto simp: bodyAt_parts blocksOk_def hasState_def)
next
  case (Cons d ds)
  have d: "d \<noteq> []" "length d < CURL_READFUNC_PAUSE" "blocksOk ds" using Cons.prems(4) by (auto simp: blocksOk_def)
  have wf: "writeFunction s = Write_callback" using Cons.prems(1) by (simp add: wants_def)
  have pr: "pr = Under_way" using Cons.prems(5) by simp
  show ?case
  proof (cases "c = 0")
    case True
    let ?s' = "(SET_RECV_PAUSED s)\<lparr>ext := ([], True, d # ds, pr)\<rparr>"
    from True have "write_callback sc d s = (CURL_READFUNC_PAUSE, SET_RECV_PAUSED s)"
      using Cons.prems(1) by (simp add: write_callback_def wants_def)
    then have "runCurl sc (deliver res pr (d # ds)) s = (res (d # ds), ?s')"
      using d(2) wf by (simp add: answerWrite_def)
    moreover have "receives sc buf [] s ?s'"
      by (auto simp: receives_def flag_simps)
    moreover have "bodyAt ?s' (concat (d # ds))"
      using Cons.prems(2,4) d(1) by (auto simp: bodyAt_parts flag_simps pr)
    ultimately show ?thesis using True d(1) by auto
  next
    case False
    then obtain s1 where s1: "write_callback sc d s = (if length d \<le> c then length d else CURL_READFUNC_PAUSE, s1)"
      "receives sc buf (take c d) s s1" "readOverflow s1 = (if length d \<le> c then 0 else int c)"
      "hasState s1 STATE_RECV_PAUSED \<longleftrightarrow> c < length d"
      using write_callback_block [of buf c s 0 d sc] Cons.prems d by auto
    show ?thesis
    proof (cases "length d \<le> c")
      case True
      then have "wants buf (c - length d) s1" using receives_wants [OF s1(2) Cons.prems(1)] by simp
      then obtain s2 ds' where s2: "runCurl sc (deliver res pr ds) s1 = (res ds', s2)"
        "receives sc buf (take (c - length d) (concat ds)) s1 s2" "bodyAt s2 (drop (c - length d) (concat ds))"
        "ext s2 = ([], ds' \<noteq> [], ds', if ds' = [] then ended pr else pr)" "ds' = [] \<longleftrightarrow> length (concat ds) \<le> c - length d"
        using Cons.IH [of "c - length d" s1] s1(3,4) d(3) True pr by auto
      then have "receives sc buf (take c (concat (d # ds))) s s2"
        using receives_more [OF s1(2) s2(2) Cons.prems(1)] True by simp
      moreover have "runCurl sc (deliver res pr (d # ds)) s = (res ds', s2)"
        using s1(1) s2(1) wf True by (simp add: answerWrite_def)
      ultimately show ?thesis using s2(3-5) True by auto
    next
      case False
      let ?s' = "s1\<lparr>ext := ([], True, d # ds, pr)\<rparr>"
      have "runCurl sc (deliver res pr (d # ds)) s = (res (d # ds), ?s')"
        using s1(1) wf False d(2) by (simp add: answerWrite_def)
      moreover have "receives sc buf (take c (concat (d # ds))) s ?s'"
        using s1(2) False by (simp add: receives_def)
      moreover have "bodyAt ?s' (drop c (concat (d # ds)))"
        using s1(3,4) False Cons.prems(4) by (auto simp: bodyAt_parts flag_simps pr)
      ultimately show ?thesis using False by auto
    qed
  qed
qed

section \<open>One read\<close>

lemma servesBody_at:
  assumes "servesBody api"
  shows "curl_easy_pause_recv api w = unpauseRecv w" "curl_multi_perform api w = performRecv w"
    "curl_multi_info_read api w = takeMessage w"
    "snd (clock_gettime api w) = w" "read_flag api a w = (False, w)" "curl_multi_add_handle api w = w"
  using assms by (unfold servesBody_def, blast+)

lemma quiet:
  assumes "servesBody api"
  shows "isInterrupted api s = (False, s)" "snd (clockNow api s) = s"
  using servesBody_at(4) [OF assms, of "ext s"] servesBody_at(5) [OF assms, of _ "ext s"]
  by (simp_all add: isInterrupted_def clockNow_def case_prod_beta)

text \<open>The end of the transfer, once it is noticed, is not reported again.\<close>

definition noticed :: "body native \<Rightarrow> body native" where
  "noticed s = (case ext s of (head, paused, ds, pr) \<Rightarrow> s\<lparr>ext := (head, paused, ds, if pr = Completed then Reported else pr)\<rparr>)"

lemma noticed_frame [simp]:
  "receives sc buf bs s (noticed s') = receives sc buf bs s s'" "bodyAt s' rest \<Longrightarrow> bodyAt (noticed s') rest"
  "hasState (noticed s') m = hasState s' m"
  by (auto simp: noticed_def receives_def bodyAt_def hasState_def Let_def split: prod.splits)

lemma checkResult_body:
  assumes "servesBody api" "ext s = (head, paused, ds, pr)"
  shows "checkResult api s = Some (pr = Completed, noticed s)"
  using servesBody_at(3) [OF assms(1), of "ext s"] assms(2)
  by (simp add: checkResult_def checkLoop.simps infoRead_def takeMessage_def noticed_def)

lemma unpause_receives:
  assumes "servesBody api" "wants buf c s" "0 < c" "\<not> hasState s STATE_RECV_PAUSED"
    and "ext s = ([], p, d # ds, Under_way)" "readOverflow s = int r" "r < length d" "blocksOk (d # ds)"
  shows "\<exists>s' bs rest. unpause sc api (curl_easy_pause_recv api) s = (False, s') \<and> receives sc buf bs s s' \<and>
    bodyAt s' rest \<and> bs @ rest = drop r (concat (d # ds)) \<and> length bs \<le> c \<and>
    (hasState s' STATE_RECV_PAUSED \<longrightarrow> length bs = c)"
proof -
  have d: "length d < CURL_READFUNC_PAUSE" "blocksOk ds" using assms(8) by (auto simp: blocksOk_def)
  obtain s1 where s1: "write_callback sc d s = (if length d - r \<le> c then length d else CURL_READFUNC_PAUSE, s1)"
    "receives sc buf (take c (drop r d)) s s1" "readOverflow s1 = (if length d - r \<le> c then 0 else int (r + c))"
    "hasState s1 STATE_RECV_PAUSED \<longleftrightarrow> c < length d - r"
    using write_callback_block [OF assms(2,3,6,7) d(1), of sc] assms(4) by auto
  let ?s' = "s1\<lparr>ext := ([], if length d - r \<le> c then (False, ds, Under_way) else (True, d # ds, Under_way))\<rparr>"
  have "writeFunction s = Write_callback" using assms(2) by (simp add: wants_def)
  then have "unpause sc api (curl_easy_pause_recv api) s = (False, ?s')"
    using assms(5) s1(1) d(1) by (simp add: unpause_def servesBody_at [OF assms(1)] unpauseRecv_def answerWrite_def)
  moreover have "receives sc buf (take c (drop r d)) s ?s'" using s1(2) by (simp add: receives_def)
  moreover have "bodyAt ?s' (if length d - r \<le> c then concat ds else drop (r + c) (concat (d # ds)))"
  proof (cases "length d - r \<le> c")
    case True
    then show ?thesis using s1(3,4) d(2) bodyAtI [of ?s' False ds Under_way 0] by (simp add: hasState_def)
  next
    case False
    then show ?thesis using s1(3,4) assms(8) bodyAtI [of ?s' True "d # ds" Under_way "r + c"] by (simp add: hasState_def)
  qed
  moreover have "take c (drop r d) @ (if length d - r \<le> c then concat ds else drop (r + c) (concat (d # ds)))
      = drop r (concat (d # ds))"
  proof (cases "length d - r \<le> c")
    case False
    moreover have "drop (r + c) d = drop c (drop r d)" by (simp add: add.commute)
    ultimately show ?thesis using assms(7) append_take_drop_id [of c "drop r d"] by simp
  qed (use assms(7) in simp)
  moreover have "hasState ?s' STATE_RECV_PAUSED \<longrightarrow> length (take c (drop r d)) = c" using s1(4) by (auto simp: hasState_def)
  ultimately show ?thesis by (metis length_take min.cobounded2)
qed

lemma perform_receives:
  assumes "servesBody api" "wants buf c s" "bodyAt s rest" "hasState s STATE_RECV_PAUSED \<longrightarrow> c = 0"
    and "hasState s STATE_NEED_INPUT" "\<not> hasState s STATE_NEED_OUTPUT"
  shows "\<exists>s'. curlPerform api sc s = Some (drop c rest = [], s') \<and> receives sc buf (take c rest) s s' \<and>
    bodyAt s' (drop c rest)"
proof -
  obtain paused ds pr r where body: "ext s = ([], paused, ds, pr)" "readOverflow s = int r" "rest = drop r (concat ds)"
    "blocksOk ds" "ds = [] \<or> pr = Under_way" "hasState s STATE_RECV_PAUSED = paused"
    "if paused then ds \<noteq> [] \<and> r < length (hd ds) else r = 0"
    using assms(3) unfolding bodyAt_parts by blast
  have "\<exists>s'. performStep api sc t st 0 s = Some (Inl (drop c rest = []), s') \<and> receives sc buf (take c rest) s s' \<and>
      bodyAt s' (drop c rest)" for t st
  proof (cases paused)
    case True
    then have "rest \<noteq> []" using body(3,7) by (cases ds) auto
    moreover have "waitsForCaller s" using assms(5) body(6) True by (simp add: waitsForCaller_def)
    moreover have "pr = Under_way" using body(5,7) True by auto
    moreover from this have "noticed s = s" using body(1) by (simp add: noticed_def)
    moreover have "c = 0" using body(6) assms(4) True by simp
    moreover have "fst (snd (ext s))" using body(1) True by simp
    moreover have "checkResult api s = Some (False, s)"
      using checkResult_body [OF assms(1) body(1)] \<open>pr = Under_way\<close> \<open>noticed s = s\<close> by simp
    ultimately have "performStep api sc t st 0 s = Some (Inl (drop c rest = []), s)"
      by (simp add: performStep_def quiet [OF assms(1)] servesBody_at [OF assms(1)] performRecv_def case_prod_beta)
    then show ?thesis using True assms(3,4) body(6) by auto
  next
    case False
    then obtain s' ds' where s': "runCurl sc (deliver running pr ds) s = (running ds', s')"
      "receives sc buf (take c rest) s s'" "bodyAt s' (drop c rest)"
      "ext s' = ([], ds' \<noteq> [], ds', if ds' = [] then ended pr else pr)" "ds' = [] \<longleftrightarrow> length rest \<le> c"
      using deliver_receives [OF assms(2), of ds pr sc running] body by auto
    have flags: "hasState s' STATE_NEED_INPUT" "\<not> hasState s' STATE_NEED_OUTPUT"
      "hasState s' STATE_RECV_PAUSED \<longleftrightarrow> ds' \<noteq> []"
      using s'(2-4) assms(5,6) by (auto simp: receives_def bodyAt_parts flag_simps)
    have "ds' \<noteq> [] \<Longrightarrow> pr = Under_way" using s'(3,4) by (auto simp: bodyAt_parts)
    then have "performStep api sc t st 0 s = Some (Inl (drop c rest = []), noticed s')"
      using checkResult_body [OF assms(1) s'(4)] s'(1,5) body(1) False flags
      by (auto simp: performStep_def quiet [OF assms(1)] servesBody_at [OF assms(1)] performRecv_def running_def
          waitsForCaller_def headersConsumed_def ended_def)
    then show ?thesis using s'(2,3) by auto
  qed
  from this [of "currentTimeout s" "fst (clockNow api s)"] show ?thesis
    using quiet(2) [OF assms(1), of s] by (auto simp: curlPerform_def Let_def performLoop.simps case_prod_beta)
qed

text \<open>Unpausing, when necessary, and performing.\<close>

definition resumed :: "body curl_api \<Rightarrow> bool \<Rightarrow> body native \<Rightarrow> bool \<times> body native" where
  "resumed api sc s =
     (if hasState s STATE_RECV_PAUSED then unpause sc api (curl_easy_pause_recv api) (SET_RECV_UNPAUSED s) else (False, s))"

lemma resumed_receives:
  assumes "servesBody api" "wants buf c s" "0 < c" "bodyAt s rest"
  shows "\<exists>s' bs rest'. resumed api sc s = (False, s') \<and> receives sc buf bs s s' \<and> bodyAt s' rest' \<and>
    bs @ rest' = rest \<and> length bs \<le> c \<and> (hasState s' STATE_RECV_PAUSED \<longrightarrow> length bs = c)"
proof (cases "hasState s STATE_RECV_PAUSED")
  case True
  then obtain d ds r where body: "ext s = ([], True, d # ds, Under_way)" "readOverflow s = int r" "rest = drop r (concat (d # ds))"
    "blocksOk (d # ds)" "r < length d"
    using assms(4) unfolding bodyAt_parts by (metis list.exhaust_sel)
  let ?u = "SET_RECV_UNPAUSED s"
  have u: "wants buf c ?u" "\<not> hasState ?u STATE_RECV_PAUSED" "ext ?u = ([], True, d # ds, Under_way)" "readOverflow ?u = int r"
    using assms(2) body(1,2) by (simp_all add: wants_def writeFunction_def flag_simps)
  have "receives sc buf bs s s'" if "receives sc buf bs ?u s'" for bs s'
    using that by (simp add: receives_def flag_simps)
  then show ?thesis
    using unpause_receives [OF assms(1) u(1) assms(3) u(2-4) body(5,4), of sc] body(3) True
    unfolding resumed_def by auto
next
  case False
  then show ?thesis
    using assms(4) unfolding resumed_def by (intro exI [of _ s] exI [of _ "[]"] exI [of _ rest]) simp
qed

lemma Curl_read_resumed:
  assumes "servesBody api" "busy s = 0" "resumed api sc (prepareRead i10n buf off cnt (s\<lparr>busy := 1\<rparr>)) = (False, s1)"
    and "curlPerform api sc s1 = Some (fin, s2)"
  shows "Curl_read api sc i10n buf off cnt s =
    Some (finishRead (if fin \<and> countToRead s2 > 0 \<and> countToRead s2 = cnt then -1 else readResult cnt s2) s2)"
  using assms by (simp add: Curl_read_def ACQUIRE_def resumed_def quiet [OF assms(1)] Let_def)

text \<open>
  The value of a read: \<open>-1\<close> at the end, otherwise the number of bytes; but when a single byte was
  asked for it is \<open>readOffset\<close>, which is the byte when there is no array, and one more than the
  offset when there is one.
\<close>

definition readValue :: "bool \<Rightarrow> jref option \<Rightarrow> nat \<Rightarrow> nat \<Rightarrow> u8 list \<Rightarrow> int" where
  "readValue sc buf off c rest =
     (if rest = [] then -1
      else if c = 1 then (case buf of None \<Rightarrow> byteValue sc (hd rest) | Some b \<Rightarrow> int off + 1)
      else int (min c (length rest)))"

lemma Curl_read_step:
  assumes api: "servesBody api" and free: "busy s = 0" and body: "bodyAt s rest" and c: "0 < c"
    and room: "hasRoom buf (int off) c (jarrays s)" and wf: "writeFunction s = Write_callback"
    and out: "\<not> hasState s STATE_NEED_OUTPUT"
  shows "\<exists>s'. Curl_read api sc i10n buf (int off) (int c) s = Some (readValue sc buf off c rest, s') \<and>
    jarrays s' = putBytes buf off (take c rest) (jarrays s) \<and>
    bodyAt s' (drop c rest) \<and> busy s' = 0 \<and> thrown s' = thrown s \<and> easyOpts s' = easyOpts s \<and>
    \<not> hasState s' STATE_NEED_OUTPUT"
proof -
  define s0 where "s0 = prepareRead i10n buf (int off) (int c) (s\<lparr>busy := 1\<rparr>)"
  have s0: "wants buf c s0" "bodyAt s0 rest" "readOffset s0 = int off" "jarrays s0 = jarrays s" "thrown s0 = thrown s"
    "easyOpts s0 = easyOpts s" "hasState s0 STATE_NEED_INPUT" "\<not> hasState s0 STATE_NEED_OUTPUT"
    using room wf body out
    by (auto simp: s0_def prepareRead_def wants_def writeFunction_def bodyAt_def flag_simps Let_def)
  obtain s1 bs rest1 where s1: "resumed api sc s0 = (False, s1)" "receives sc buf bs s0 s1" "bodyAt s1 rest1"
    "bs @ rest1 = rest" "length bs \<le> c" "hasState s1 STATE_RECV_PAUSED \<longrightarrow> length bs = c"
    using resumed_receives [OF api s0(1) c s0(2)] by blast
  have w1: "wants buf (c - length bs) s1" by (rule receives_wants [OF s1(2) s0(1) s1(5)])
  have "hasState s1 STATE_NEED_INPUT" "\<not> hasState s1 STATE_NEED_OUTPUT"
    using s0(7,8) s1(2) by (auto simp: receives_def flag_simps)
  then obtain s2 where s2: "curlPerform api sc s1 = Some (drop (c - length bs) rest1 = [], s2)"
    "receives sc buf (take (c - length bs) rest1) s1 s2" "bodyAt s2 (drop (c - length bs) rest1)"
    using perform_receives [OF api w1 s1(3)] s1(6) by auto
  have split: "take c rest = bs @ take (c - length bs) rest1" "drop c rest = drop (c - length bs) rest1"
    using s1(4,5) by (auto simp flip: s1(4))
  have got: "receives sc buf (take c rest) s0 s2"
    unfolding split using receives_more [OF s1(2) s2(2) s0(1)] s1(5) by simp
  then have end2: "countToRead s2 = int c - int (length (take c rest))"
    "readOffset s2 = nextOffset sc buf (take c rest) (int off)"
    using s0(1,3) by (simp_all add: receives_def wants_def)
  have one: "take 1 rest = [hd rest]" if "rest \<noteq> []" using that by (cases rest) simp_all
  have "(if drop c rest = [] \<and> countToRead s2 > 0 \<and> countToRead s2 = int c then -1 else readResult (int c) s2)
      = readValue sc buf off c rest"
    using end2 c one
    by (cases "c = 1"; cases rest) (auto simp: readResult_def readValue_def nextOffset_def min_def split: option.split)
  then have "Curl_read api sc i10n buf (int off) (int c) s =
      Some (readValue sc buf off c rest, RELEASE (SET_NEED_NO_INPUT s2))"
    using Curl_read_resumed [OF api free s1(1) [unfolded s0_def] s2(1)] by (simp add: split(2) finishRead_def)
  moreover have "bodyAt (RELEASE (SET_NEED_NO_INPUT s2)) (drop c rest)"
    using s2(3) unfolding split(2) by (simp add: bodyAt_def RELEASE_def flag_simps Let_def)
  ultimately show ?thesis
    using got s0(3-6,8) by (auto simp: receives_def RELEASE_def flag_simps)
qed

section \<open>Sequences of reads\<close>

text \<open>
  A read is an array or none, an offset and a size; a read without an array asks for one byte.  A
  sequence of reads gives the value of each and what the arrays hold after it.
\<close>

type_synonym java_read = "jref option \<times> nat \<times> nat"

definition fits :: "java_read \<Rightarrow> (jref \<Rightarrow> u8 list) \<Rightarrow> bool" where
  "fits rd arrays =
     (case rd of (buf, off, c) \<Rightarrow>
        0 < c \<and> (case buf of None \<Rightarrow> c = 1 | Some b \<Rightarrow> off + c \<le> length (arrays b)))"

fun readBody :: "body curl_api \<Rightarrow> bool \<Rightarrow> int \<Rightarrow> java_read list \<Rightarrow> body native
    \<Rightarrow> ((int \<times> (jref \<Rightarrow> u8 list)) list \<times> body native) option" where
  "readBody api sc i10n [] s = Some ([], s)"
| "readBody api sc i10n ((buf, off, c) # rs) s =
     (case Curl_read api sc i10n buf (int off) (int c) s of
        None \<Rightarrow> None
      | Some (v, s') \<Rightarrow>
          (case readBody api sc i10n rs s' of
             None \<Rightarrow> None
           | Some (vs, s'') \<Rightarrow> Some ((v, jarrays s') # vs, s'')))"

text \<open>The same on a stream of bytes.\<close>

fun streamReads :: "bool \<Rightarrow> java_read list \<Rightarrow> u8 list \<Rightarrow> (jref \<Rightarrow> u8 list) \<Rightarrow> (int \<times> (jref \<Rightarrow> u8 list)) list" where
  "streamReads sc [] rest arrays = []"
| "streamReads sc ((buf, off, c) # rs) rest arrays =
     (let arrays' = putBytes buf off (take c rest) arrays
      in (readValue sc buf off c rest, arrays') # streamReads sc rs (drop c rest) arrays')"

text \<open>
  The bytes that the caller of a read gets: none after \<open>-1\<close>; the value itself, when there is no array;
  else what is in the array from the offset on.
\<close>

definition gotBytes :: "java_read \<Rightarrow> int \<times> (jref \<Rightarrow> u8 list) \<Rightarrow> u8 list" where
  "gotBytes rd va =
     (case (rd, va) of ((buf, off, c), (v, arrays)) \<Rightarrow>
        if v = -1 then []
        else case buf of
          None \<Rightarrow> [of_int v]
        | Some b \<Rightarrow> take (if c = 1 then 1 else nat v) (drop off (arrays b)))"

text \<open>
  Where \<open>char\<close> is signed, the single byte \<open>0xff\<close> comes out as \<open>-1\<close>.
\<close>

definition ambiguous :: "bool \<Rightarrow> java_read list \<Rightarrow> u8 list \<Rightarrow> bool" where
  "ambiguous sc rs rest \<longleftrightarrow> sc \<and> None \<in> fst ` set rs \<and> 0xff \<in> set rest"

lemma fits_put: "fits rd (putBytes buf off bs arrays) = fits rd arrays"
  if "case buf of None \<Rightarrow> True | Some b \<Rightarrow> off + length bs \<le> length (arrays b)"
  using that by (auto simp: fits_def putBytes_def split: prod.split option.split)

lemma got_read:
  assumes "fits (buf, off, c) arrays" "\<not> ambiguous sc ((buf, off, c) # rs) rest"
  shows "gotBytes (buf, off, c) (readValue sc buf off c rest, putBytes buf off (take c rest) arrays) = take c rest"
proof (cases "rest = []")
  case False
  have one: "take 1 rest = [hd rest]" "hd rest \<in> set rest" using False by (cases rest; simp)+
  show ?thesis
  proof (cases buf)
    case None
    then have "c = 1" "byteValue sc (hd rest) \<noteq> -1"
      using assms one(2) by (auto simp: fits_def byteValue_minus_one ambiguous_def)
    then show ?thesis using False one(1) by (simp add: gotBytes_def readValue_def None)
  next
    case (Some b)
    have "min (length (arrays b)) off = off" "int (min c (length rest)) \<noteq> - 1"
      using assms(1) by (auto simp: fits_def Some)
    then show ?thesis
      using False one(1) by (auto simp: gotBytes_def readValue_def putBytes_def Some min_def Suc_le_eq)
  qed
qed (simp add: gotBytes_def readValue_def)

lemma streamReads_concat:
  assumes "\<forall>rd \<in> set rs. fits rd arrays" "\<not> ambiguous sc rs rest"
  shows "concat (map2 gotBytes rs (streamReads sc rs rest arrays)) = take (sum_list (map (snd \<circ> snd) rs)) rest"
  using assms
proof (induction rs arbitrary: rest arrays)
  case (Cons rd rs)
  obtain buf off c where rd: "rd = (buf, off, c)" by (cases rd) auto
  have "case buf of None \<Rightarrow> True | Some b \<Rightarrow> off + length (take c rest) \<le> length (arrays b)"
    using Cons.prems(1) by (auto simp: rd fits_def min_def split: option.splits)
  then have "\<forall>rd \<in> set rs. fits rd (putBytes buf off (take c rest) arrays)"
    using Cons.prems(1) by (simp add: fits_put)
  moreover have "\<not> ambiguous sc rs (drop c rest)"
    using Cons.prems(2) by (auto simp: ambiguous_def dest: in_set_dropD)
  ultimately show ?case
    using Cons.IH Cons.prems(1) got_read [of buf off c arrays sc rs rest] Cons.prems(2)
    by (simp add: rd Let_def take_add)
qed simp

lemma readBody_stream:
  assumes "servesBody api" "busy s = 0" "bodyAt s rest" "writeFunction s = Write_callback"
    and "\<not> hasState s STATE_NEED_OUTPUT" "\<forall>rd \<in> set rs. fits rd (jarrays s)"
  shows "map_option fst (readBody api sc i10n rs s) = Some (streamReads sc rs rest (jarrays s))"
  using assms(2-6)
proof (induction rs arbitrary: s rest)
  case (Cons rd rs)
  obtain buf off c where rd: "rd = (buf, off, c)" by (cases rd) auto
  have c: "0 < c" "hasRoom buf (int off) c (jarrays s)"
    using Cons.prems(5) by (auto simp: rd fits_def hasRoom_def split: option.splits)
  obtain s' where s': "Curl_read api sc i10n buf (int off) (int c) s = Some (readValue sc buf off c rest, s')"
    "jarrays s' = putBytes buf off (take c rest) (jarrays s)"
    "bodyAt s' (drop c rest)" "busy s' = 0" "easyOpts s' = easyOpts s" "\<not> hasState s' STATE_NEED_OUTPUT"
    using Curl_read_step [OF assms(1) Cons.prems(1,2) c Cons.prems(3,4)] by blast
  have "case buf of None \<Rightarrow> True | Some b \<Rightarrow> off + length (take c rest) \<le> length (jarrays s b)"
    using Cons.prems(5) by (auto simp: rd fits_def min_def split: option.splits)
  then have "\<forall>rd \<in> set rs. fits rd (jarrays s')" using Cons.prems(5) by (simp add: s'(2) fits_put)
  moreover have "writeFunction s' = Write_callback" using Cons.prems(3) s'(5) by (simp add: writeFunction_def)
  ultimately have "map_option fst (readBody api sc i10n rs s') = Some (streamReads sc rs (drop c rest) (jarrays s'))"
    using Cons.IH [OF s'(4,3) _ s'(6)] by simp
  then show ?case using s'(1,2) by (auto simp: rd Let_def split: option.splits)
qed simp

section \<open>Properties\<close>

text \<open>
  C9: \<open>read\<close> refines reading from a stream.  curl has the rest of the body in blocks of any sizes;
  whether or not it is paused, \<open>read\<close> returns, the array has the next bytes of the body from the
  offset on and is otherwise unchanged, the rest of the body is what remains, the lock is free and
  nothing is thrown.  The value is the number of bytes, or \<open>-1\<close> at the end of the body; but for a
  request of a single byte it is the offset plus one.
\<close>

theorem Curl_read_refines_stream:
  assumes "servesBody api" "busy s = 0" "bodyAt s rest" "0 < c" "off + c \<le> length (jarrays s b)"
    and "writeFunction s = Write_callback" "\<not> hasState s STATE_NEED_OUTPUT"
  shows "\<exists>s'. Curl_read api sc i10n (Some b) (int off) (int c) s =
      Some (if rest = [] then -1 else if c = 1 then int off + 1 else int (min c (length rest)), s') \<and>
    jarrays s' = (jarrays s)(b := take off (jarrays s b) @ take c rest @ drop (off + length (take c rest)) (jarrays s b)) \<and>
    bodyAt s' (drop c rest) \<and> busy s' = 0 \<and> thrown s' = thrown s \<and> easyOpts s' = easyOpts s \<and>
    \<not> hasState s' STATE_NEED_OUTPUT"
proof -
  have "hasRoom (Some b) (int off) c (jarrays s)" using assms(5) by (simp add: hasRoom_def)
  from Curl_read_step [OF assms(1-4) this assms(6,7)] show ?thesis
    by (simp only: readValue_def putBytes_def option.case)
qed

text \<open>The example: two blocks, none of them delivered yet.\<close>

definition demoServer :: "body curl_api" where
  "demoServer = \<lparr>curl_multi_perform = performRecv, curl_easy_pause_recv = unpauseRecv,
     curl_easy_pause_send = (\<lambda>w. Finished CURLE_OK w), curl_multi_timeout = (\<lambda>w. (100, w)),
     curl_multi_wait = (\<lambda>t w. ((CURLM_OK, 0), w)), curl_multi_info_read = takeMessage,
     curl_multi_add_handle = (\<lambda>w. w), curl_multi_remove_handle = (\<lambda>w. w), curl_effective_url = (\<lambda>w. None),
     clock_gettime = (\<lambda>w. ((0, 0), w)), read_flag = (\<lambda>a w. (False, w)),
     easy_strerror = (\<lambda>c. []), multi_strerror = (\<lambda>c. []), location_key = 0\<rparr>"

definition demoBody :: "'w \<Rightarrow> 'w native" where
  "demoBody w = \<lparr>outHeaders = [], bufferForReceiving = None, bufferForSending = None,
     headers = freshMap hdrHash hdrEquals 3, headerPairs = (\<lambda>i. 0),
     headerBufSize = 20, headerPairCount = 0, maxHeaderLength = 0, uploadedCount = 0, uploadGoal = 0,
     state = 0, readOffset = 0, countToRead = 0, readOverflow = 0, writeOffset = 0, countToWrite = 0,
     connTimeout = 0, readTimeout = 0, interrupted = 0, busy = 0, outHeaderCount = 0, errorBuffer = [],
     mem = demoMem, pairsBytes = 320, jarrays = (\<lambda>b. [1, 2, 3, 4]), thrown = [], pending = False, easyOpts = (\<lambda>x. None), ext = w\<rparr>"

lemma demo_body:
  "servesBody demoServer" "bodyAt (demoBody ([], False, [[10, 20, 30], [40, 0xff]], Under_way)) [10, 20, 30, 40, 0xff]"
  "busy (demoBody w) = 0" "jarrays (demoBody w) b = [1, 2, 3, 4]" "writeFunction (demoBody w) = Write_callback"
  "\<not> hasState (demoBody w) STATE_NEED_OUTPUT"
  by (simp_all add: servesBody_def demoServer_def demoBody_def bodyAt_def hasState_def writeFunction_def
      CURL_READFUNC_PAUSE_def)

theorem Curl_read_refines_stream_witness:
  "\<exists>s'. Curl_read demoServer True 0 (Some 7) 2 1 (demoBody ([], False, [[10, 20, 30], [40, 0xff]], Under_way)) = Some (3, s') \<and>
     jarrays s' 7 = [1, 2, 10, 4] \<and> bodyAt s' [20, 30, 40, 0xff] \<and> busy s' = 0"
proof -
  let ?s = "demoBody ([], False, [[10, 20, 30], [40, 0xff]], Under_way) :: body native"
  have "0 < (1 :: nat)" "2 + 1 \<le> length (jarrays ?s 7)" by (simp_all add: demo_body)
  from Curl_read_refines_stream [OF demo_body(1,3,2) this demo_body(5,6), of True 0]
  obtain s' where "Curl_read demoServer True 0 (Some 7) 2 1 ?s = Some (3, s')"
    "jarrays s' = (jarrays ?s)(7 := [1, 2, 10, 4])" "bodyAt s' [20, 30, 40, 0xff]" "busy s' = 0"
    by (auto simp: demo_body)
  then show ?thesis by simp
qed

text \<open>
  C4: reading a body to its end.  Any sequence of reads, of single bytes or into arrays of any sizes
  at any offsets, returns and gives what the same sequence gives on the stream of the body's bytes:
  the value of every read and the contents of all arrays after it.  The bytes that the caller gets
  are the body in order, nothing lost and nothing twice, unless \<open>char\<close> is signed, single bytes are
  asked for and the body has a byte \<open>0xff\<close>.
\<close>

theorem Curl_read_to_end:
  assumes "servesBody api" "busy s = 0" "bodyAt s rest" "writeFunction s = Write_callback"
    and "\<not> hasState s STATE_NEED_OUTPUT" "\<forall>rd \<in> set rs. fits rd (jarrays s)"
  shows "\<exists>vs s'. readBody api sc i10n rs s = Some (vs, s') \<and> vs = streamReads sc rs rest (jarrays s) \<and>
    (ambiguous sc rs rest \<or> concat (map2 gotBytes rs vs) = take (sum_list (map (snd \<circ> snd) rs)) rest)"
  using readBody_stream [OF assms, of sc i10n] streamReads_concat [OF assms(6), of sc rest] by auto

theorem Curl_read_to_end_witness:
  "\<exists>vs s'. readBody demoServer False 0 [(Some 7, 1, 2), (None, 0, 1), (Some 7, 3, 1), (None, 0, 1), (Some 8, 0, 4)]
       (demoBody ([], False, [[10, 20, 30], [40, 0xff]], Under_way)) = Some (vs, s') \<and>
     map fst vs = [2, 30, 4, 255, -1] \<and> snd (last vs) 7 = [1, 10, 20, 40] \<and> snd (last vs) 8 = [1, 2, 3, 4]"
proof -
  let ?rs = "[(Some 7, 1, 2), (None, 0, 1), (Some 7, 3, 1), (None, 0, 1), (Some 8, 0, 4)] :: java_read list"
    and ?s = "demoBody ([], False, [[10, 20, 30], [40, 0xff]], Under_way) :: body native"
  have "\<forall>rd \<in> set ?rs. fits rd (jarrays ?s)" by (simp add: fits_def demo_body)
  from Curl_read_to_end [OF demo_body(1,3,2,5,6) this, of False 0] obtain s' where
    "readBody demoServer False 0 ?rs ?s = Some (streamReads False ?rs [10, 20, 30, 40, 0xff] (jarrays ?s), s')"
    by (elim exE conjE) (simp del: readBody.simps streamReads.simps)
  then show ?thesis
    by (intro exI conjI) (assumption, simp_all add: readValue_def putBytes_def byteValue_def demo_body Let_def)
qed

text \<open>
  C33: a read of a single byte, as Java does it for an \<open>InputStream\<close>.  It takes the next byte off the
  body, changes no array and gives the byte's value; where \<open>char\<close> is signed that value is negative
  from \<open>0x80\<close> on, and the byte \<open>0xff\<close> in the middle of a body gives the value \<open>-1\<close> of its end.
\<close>

theorem Curl_read_single_byte:
  assumes "servesBody api" "busy s = 0" "bodyAt s (x # rest)" "writeFunction s = Write_callback"
    and "\<not> hasState s STATE_NEED_OUTPUT"
  shows "\<exists>s'. Curl_read api sc i10n None (int off) 1 s = Some (if sc then sint x else uint x, s') \<and>
    jarrays s' = jarrays s \<and> bodyAt s' rest \<and> busy s' = 0 \<and> thrown s' = thrown s \<and>
    ((if sc then sint x else uint x) = -1 \<longleftrightarrow> sc \<and> x = 0xff)"
proof -
  have "(0 :: nat) < 1" "hasRoom None (int off) 1 (jarrays s)" by (simp_all add: hasRoom_def)
  from Curl_read_step [OF assms(1-3) this assms(4,5), of sc i10n] show ?thesis
    using byteValue_minus_one [of sc x] by (auto simp: readValue_def putBytes_def byteValue_def)
qed

theorem Curl_read_single_byte_witness:
  "\<exists>s'. Curl_read demoServer True 0 None 0 1 (demoBody ([], False, [[0xff], [40, 50]], Under_way)) = Some (-1, s') \<and>
     bodyAt s' [40, 50]"
proof -
  let ?s = "demoBody ([], False, [[0xff], [40, 50]], Under_way) :: body native"
  have "bodyAt ?s [0xff, 40, 50]" by (simp add: demoBody_def bodyAt_def hasState_def CURL_READFUNC_PAUSE_def)
  from Curl_read_single_byte [OF demo_body(1,3) this demo_body(5,6), of True 0 0]
  show ?thesis by auto
qed

end
