(* ===== verification/TransferLaws.thy ===== *)
theory TransferLaws
  imports BodyStream
begin

text \<open>
  \<open>reset\<close> together with the store of response headers.
\<close>

section \<open>Resetting\<close>

text \<open>
  C26: \<open>reset\<close> on a connection that nobody uses empties the store of response headers (its map is
  well formed and answers NULL for every name, and no pair is left), clears every state flag and
  the counters of the transfer and releases the lock.  It keeps the request headers and every
  option of the curl handle.
\<close>

theorem Curl_reset_clears:
  assumes "busy s = 0" "hashmapFor K hdrHash hdrEquals m (headers s)"
  shows "let s' = Curl_reset api s in
    hashmapFor K hdrHash hdrEquals m (headers s') \<and> mapSize (headers s') = 0 \<and>
    hmLookup m (headers s') k = None \<and> headerPairCount s' = 0 \<and> maxHeaderLength s' = 0 \<and>
    state s' = 0 \<and> uploadedCount s' = 0 \<and> readOverflow s' = 0 \<and> busy s' = 0 \<and>
    thrown s' = thrown s \<and> outHeaders s' = outHeaders s \<and> outHeaderCount s' = outHeaderCount s \<and>
    easyOpts s' = easyOpts s"
proof -
  have "hashmapFor K hdrHash hdrEquals m (snd (hashmapClear (headers s)))"
    "mapSize (snd (hashmapClear (headers s))) = 0" "hmLookup m (snd (hashmapClear (headers s))) k = None"
    using assms(2) wellPlaced_replicate
    by (auto simp: hashmapClear_def hashmapFor_def hashmapInv_def entriesOk_def entries_def hmLookup_def)
  then show ?thesis
    using assms(1) by (simp add: Curl_reset_def ACQUIRE_def RELEASE_def releaseHeaders_def Let_def)
qed

definition demoTransfer :: "unit native" where
  "demoTransfer = demoNative\<lparr>jarrays := (\<lambda>b. [1, 2, 3, 4, 5]), bufferForSending := Some 7,
     countToWrite := 4, writeOffset := 1, uploadGoal := 10\<rparr>"

theorem Curl_reset_clears_witness:
  "let s' = Curl_reset idleApi (demoTransfer\<lparr>state := 0x20d\<rparr>)
   in mapSize (headers s') = 0 \<and> headerPairCount s' = 0 \<and> state s' = 0 \<and> busy s' = 0"
proof -
  have "hashmapFor {} hdrHash hdrEquals demoMem (headers (demoTransfer\<lparr>state := 0x20d\<rparr>))"
    using freshMap_ok [of 3 "{}" hdrHash hdrEquals demoMem] by (simp add: demoTransfer_def demoNative_def)
  then show ?thesis
    using Curl_reset_clears [of "demoTransfer\<lparr>state := 0x20d\<rparr>" "{}" demoMem idleApi]
    by (simp add: demoTransfer_def demoNative_def Let_def)
qed

end
