(* ===== verification/UploadStream.thy ===== *)
theory UploadStream
  imports BodyStream
begin

text \<open>
  The body of a request as a stream of bytes: \<open>write\<close>, with the callback, the pause and the loop of
  \<open>curlPerform\<close>, refines appending to what curl has sent, for a length that is announced and for one
  that is not; \<open>closeOutput\<close> ends a body of the latter kind.
\<close>

section \<open>A request body\<close>

text \<open>
  curl with a request body of \<open>g\<close> bytes, or of unknown length when \<open>g\<close> is \<open>0\<close>: whether it is paused,
  whether the body has ended and what it has sent so far.  It asks for data, with buffers of any
  sizes, until the callback pauses or ends the body or the length is reached, at most a number of
  times in one call.
\<close>

type_synonym upload = "bool \<times> bool \<times> u8 list"

definition complete :: "nat \<Rightarrow> u8 list \<Rightarrow> bool" where
  "complete g sent \<longleftrightarrow> g \<noteq> 0 \<and> g \<le> length sent"

primrec ask :: "'r \<Rightarrow> (u8 list \<Rightarrow> nat) \<Rightarrow> nat \<Rightarrow> nat \<Rightarrow> u8 list \<Rightarrow> ('r, upload) curl_run" where
  "ask res room g 0 sent = Finished res (False, complete g sent, sent)"
| "ask res room g (Suc m) sent =
     (if complete g sent then Finished res (False, True, sent)
      else AskData 1 (room sent)
       (\<lambda>(n, bs). if n = CURL_READFUNC_PAUSE then Finished res (True, False, sent)
                 else if n = 0 then Finished res (False, True, sent) else ask res room g m (sent @ bs)))"

text \<open>
  \<open>curl_easy_pause\<close> takes the pause back and asks \<open>early sent\<close> times for data, which may be not at
  all; it is \<open>curl_multi_perform\<close> that asks, once or \<open>later sent\<close> times more.  The connection takes data
  all the time: a wait for it ends with an event.
\<close>

definition takesBody :: "(u8 list \<Rightarrow> nat) \<Rightarrow> (u8 list \<Rightarrow> nat) \<Rightarrow> (u8 list \<Rightarrow> nat) \<Rightarrow> nat \<Rightarrow> upload curl_api \<Rightarrow> bool" where
  "takesBody room early later g api \<longleftrightarrow>
     g < 2 ^ 64 \<and>
     (\<forall>p e sent. 0 < room sent \<and> room sent < CURL_READFUNC_PAUSE \<and>
          curl_easy_pause_send api (p, e, sent) =
            (if e then Finished CURLE_OK (p, e, sent) else ask CURLE_OK room g (early sent) sent) \<and>
          curl_multi_perform api (p, e, sent) =
            (if p \<or> e then Finished (CURLM_OK, 1) (p, e, sent) else ask (CURLM_OK, 1) room g (Suc (later sent)) sent)) \<and>
     (\<forall>w. curl_multi_info_read api w = ((None, 0), w) \<and> snd (clock_gettime api w) = w \<and>
          (\<forall>a. read_flag api a w = (False, w)) \<and> 0 < fst (curl_multi_timeout api w) \<and> snd (curl_multi_timeout api w) = w \<and>
          (\<forall>t. fst (fst (curl_multi_wait api t w)) = CURLM_OK \<and> snd (fst (curl_multi_wait api t w)) \<noteq> 0 \<and>
               snd (curl_multi_wait api t w) = w))"

text \<open>The state between writes: the flag tells that curl waits for a call, or for nothing any more.\<close>

definition sentSoFar :: "nat \<Rightarrow> upload native \<Rightarrow> u8 list \<Rightarrow> bool" where
  "sentSoFar g s sent \<longleftrightarrow>
     ext s = (hasState s STATE_SEND_PAUSED \<and> \<not> complete g sent, complete g sent, sent) \<and>
     (complete g sent \<longrightarrow> hasState s STATE_SEND_PAUSED) \<and>
     \<not> hasState s STATE_DONE_SENDING \<and> \<not> hasState s STATE_NEED_INPUT \<and> uploadGoal s = of_nat g \<and>
     (g \<noteq> 0 \<longrightarrow> uploadedCount s = of_nat (length sent)) \<and> readFunction s = Read_callback \<and>
     0 < connTimeout s \<and> 0 < readTimeout s"

text \<open>A state with \<open>c\<close> bytes to send in a transfer that is not paused.\<close>

definition hasToSend :: "nat \<Rightarrow> u8 list \<Rightarrow> jref \<Rightarrow> nat \<Rightarrow> 'w native \<Rightarrow> bool" where
  "hasToSend g sent b c s \<longleftrightarrow>
     bufferForSending s = Some b \<and> countToWrite s = int c \<and> 0 \<le> writeOffset s \<and>
     nat (writeOffset s) + c \<le> length (jarrays s b) \<and> \<not> hasState s STATE_DONE_SENDING \<and>
     uploadGoal s = of_nat g \<and>
     (g \<noteq> 0 \<longrightarrow> uploadedCount s = of_nat (length sent) \<and> length sent + c \<le> g) \<and>
     hasState s STATE_SEND_PAUSED = complete g sent \<and> readFunction s = Read_callback"

text \<open>What it does to the state that curl takes \<open>n\<close> bytes, after which it has sent \<open>sent\<close>.\<close>

definition sends :: "nat \<Rightarrow> nat \<Rightarrow> upload native \<Rightarrow> u8 list \<Rightarrow> upload native \<Rightarrow> bool" where
  "sends g n s sent s' \<longleftrightarrow>
     ext s' = (hasState s' STATE_SEND_PAUSED \<and> \<not> complete g sent, complete g sent, sent) \<and>
     (complete g sent \<longrightarrow> hasState s' STATE_SEND_PAUSED) \<and> (hasState s' STATE_SEND_PAUSED \<longrightarrow> countToWrite s' = 0) \<and>
     countToWrite s' = countToWrite s - int n \<and> writeOffset s' = writeOffset s + int n \<and>
     bufferForSending s' = bufferForSending s \<and> (g \<noteq> 0 \<longrightarrow> uploadedCount s' = of_nat (length sent)) \<and>
     jarrays s' = jarrays s \<and> easyOpts s' = easyOpts s \<and> thrown s' = thrown s \<and> busy s' = busy s \<and>
     uploadGoal s' = uploadGoal s \<and> connTimeout s' = connTimeout s \<and> readTimeout s' = readTimeout s \<and>
     (\<forall>k. k \<noteq> 5 \<longrightarrow> bit (state s') k = bit (state s) k)"

lemma takesBody_at:
  assumes "takesBody room early later g api"
  shows "0 < room x" "room x < CURL_READFUNC_PAUSE" "g < 2 ^ 64"
    "curl_easy_pause_send api (p, e, sent) =
       (if e then Finished CURLE_OK (p, e, sent) else ask CURLE_OK room g (early sent) sent)"
    "curl_multi_perform api (p, e, sent) =
       (if p \<or> e then Finished (CURLM_OK, 1) (p, e, sent) else ask (CURLM_OK, 1) room g (Suc (later sent)) sent)"
    "curl_multi_info_read api w = ((None, 0), w)" "snd (clock_gettime api w) = w" "read_flag api a w = (False, w)"
    "0 < fst (curl_multi_timeout api w)" "snd (curl_multi_timeout api w) = w"
    "fst (fst (curl_multi_wait api t w)) = CURLM_OK" "snd (fst (curl_multi_wait api t w)) \<noteq> 0"
    "snd (curl_multi_wait api t w) = w"
  using assms unfolding takesBody_def by blast+

lemma takesBody_quiet:
  assumes "takesBody room early later g api"
  shows "isInterrupted api t = (False, t)" "snd (clockNow api t) = t" "checkResult api t = Some (False, t)"
  using takesBody_at(6,7) [OF assms, of "ext t"] takesBody_at(8) [OF assms, of _ "ext t"]
  by (simp_all add: isInterrupted_def clockNow_def case_prod_beta checkResult_def checkLoop.simps infoRead_def)

section \<open>Asking for data\<close>

lemma goal_reached:
  fixes goal cnt :: u64
  assumes "goal = of_nat g" "g < 2 ^ 64" "g \<noteq> 0 \<longrightarrow> cnt = of_nat k" "g \<noteq> 0 \<longrightarrow> k + n \<le> g" "g \<noteq> 0"
  shows "goal \<noteq> 0" "goal \<le> cnt + of_nat n \<longleftrightarrow> g \<le> k + n"
proof -
  have u: "unat (of_nat x :: u64) = x" if "x \<le> g" for x using that assms(2) by (simp add: unat_of_nat)
  show "goal \<noteq> 0" using u [of g] assms(1,5) by auto
  have "cnt + of_nat n = of_nat (k + n)" using assms(3,5) by simp
  then show "goal \<le> cnt + of_nat n \<longleftrightarrow> g \<le> k + n"
    using u [of g] u [of "k + n"] assms(1,4,5) unfolding word_le_nat_alt by simp
qed

text \<open>A request that the callback answers with a pause, because there is nothing left to send.\<close>

lemma ask_pauses:
  assumes "hasToSend g sent b 0 s"
  shows "\<exists>s'. runCurl sc (ask res room g (Suc m) sent) s = (res, s') \<and> sends g 0 s sent s' \<and> hasState s' STATE_SEND_PAUSED"
proof -
  let ?s = "if complete g sent then s\<lparr>ext := (False, True, sent)\<rparr> else (SET_SEND_PAUSED s)\<lparr>ext := (True, False, sent)\<rparr>"
  note pr = assms [unfolded hasToSend_def]
  have "read_callback 1 (room sent) s = ((CURL_WRITEFUNC_PAUSE, []), SET_SEND_PAUSED s)"
    using pr by (simp add: read_callback_def)
  then have "runCurl sc (ask res room g (Suc m) sent) s = (res, ?s)"
    using pr by (simp add: answerRead_def CURL_WRITEFUNC_PAUSE_def CURL_READFUNC_PAUSE_def)
  moreover have "sends g 0 s sent ?s" "hasState ?s STATE_SEND_PAUSED"
    using pr by (auto simp: sends_def flag_simps)
  ultimately show ?thesis by blast
qed

lemma sends_more: "sends g n s x s1 \<Longrightarrow> sends g n' s1 y s2 \<Longrightarrow> sends g (n + n') s y s2"
  by (auto simp: sends_def)

text \<open>Any number of requests: curl takes some of the bytes.\<close>

lemma ask_sends:
  assumes "\<forall>x. 0 < room x \<and> room x < CURL_READFUNC_PAUSE" "g < 2 ^ 64" "hasToSend g sent b c s"
  shows "\<exists>n s'. runCurl sc (ask res room g m sent) s = (res, s') \<and> n \<le> c \<and>
    sends g n s (sent @ take n (drop (nat (writeOffset s)) (jarrays s b))) s' \<and>
    (0 < m \<longrightarrow> 0 < n \<or> hasState s' STATE_SEND_PAUSED)"
  using assms(3)
proof (induction m arbitrary: s c sent)
  case 0
  note pr = 0 [unfolded hasToSend_def]
  have "sends g 0 s sent (s\<lparr>ext := (False, complete g sent, sent)\<rparr>)"
    using pr by (auto simp: sends_def complete_def hasState_def)
  then show ?case by (intro exI [of _ 0] exI [of _ "s\<lparr>ext := (False, complete g sent, sent)\<rparr>"]) simp
next
  case (Suc m)
  note pr = Suc.prems [unfolded hasToSend_def]
  show ?case
  proof (cases "c = 0")
    case True
    then show ?thesis
      using ask_pauses [of g sent b s sc res room m] Suc.prems by (intro exI [of _ 0]) auto
  next
    case False
    define n where "n = min c (room sent)"
    define off where "off = nat (writeOffset s)"
    define sent' where "sent' = sent @ take n (drop off (jarrays s b))"
    define s1 where "s1 = (if uploadGoal s \<noteq> 0 \<and> uploadGoal s \<le> uploadedCount s + of_nat n then SET_SEND_PAUSED else id)
       (s\<lparr>writeOffset := int (off + n), countToWrite := int (c - n),
          uploadedCount := if uploadGoal s = 0 then uploadedCount s else uploadedCount s + of_nat n\<rparr>)"
    have call: "read_callback 1 (room sent) s = ((n, take n (drop off (jarrays s b))), s1)"
      unfolding s1_def using pr False n_def by (intro read_callback_array) (auto simp: off_def)
    have n: "0 < n" "n \<le> c" "n < CURL_READFUNC_PAUSE" using assms(1) False by (auto simp: n_def min_less_iff_disj)
    have len: "length sent' = length sent + n" using pr n(2) by (auto simp: sent'_def off_def)
    have goal: "uploadGoal s \<noteq> 0" "uploadGoal s \<le> uploadedCount s + of_nat n \<longleftrightarrow> g \<le> length sent'" if "g \<noteq> 0"
      using goal_reached [of "uploadGoal s" g "uploadedCount s" "length sent" n] pr assms(2) n(2) that len by auto
    have nc: "\<not> complete g sent" using pr False by (auto simp: complete_def)
    then have "hasToSend g sent' b (c - n) s1"
      using pr n len goal by (cases "g = 0") (auto simp: hasToSend_def s1_def complete_def off_def readFunction_def flag_simps)
    moreover have f: "countToWrite s1 = countToWrite s - int n" "writeOffset s1 = writeOffset s + int n"
      "bufferForSending s1 = bufferForSending s" "easyOpts s1 = easyOpts s" "thrown s1 = thrown s" "busy s1 = busy s"
      "uploadGoal s1 = uploadGoal s" "connTimeout s1 = connTimeout s" "readTimeout s1 = readTimeout s"
      "jarrays s1 = jarrays s" "\<forall>k. k \<noteq> 5 \<longrightarrow> bit (state s1) k = bit (state s) k"
      using pr n(2) by (auto simp: s1_def off_def of_nat_diff flag_simps)
    moreover have "nat (writeOffset s1) = off + n" by (auto simp: s1_def nat_add_distrib)
    ultimately obtain k s' where s': "runCurl sc (ask res room g m sent') s1 = (res, s')" "k \<le> c - n"
      "sends g k s1 (sent' @ take k (drop (off + n) (jarrays s b))) s'"
      using Suc.IH [of sent' "c - n" s1] by auto
    have "take (n + k) (drop off (jarrays s b)) = take n (drop off (jarrays s b)) @ take k (drop (off + n) (jarrays s b))"
      using take_add [of n k "drop off (jarrays s b)"] by (simp add: add.commute)
    then have "sends g (n + k) s (sent @ take (n + k) (drop off (jarrays s b))) s'"
      using s'(3) f unfolding sends_def sent'_def by auto
    moreover have "runCurl sc (ask res room g (Suc m) sent) s = (res, s')"
      using s'(1) call n(1,3) pr nc by (simp add: answerRead_def sent'_def)
    ultimately show ?thesis
      using n(1,2) s'(2) by (intro exI [of _ "n + k"] exI [of _ s']) (auto simp: off_def)
  qed
qed

text \<open>What is left to send after that.\<close>

lemma sends_left:
  assumes "sends g n s (sent @ take n (drop (nat (writeOffset s)) (jarrays s b))) s'" "hasToSend g sent b c s" "n \<le> c"
    and "\<not> hasState s' STATE_SEND_PAUSED"
  defines "sent' \<equiv> sent @ take n (drop (nat (writeOffset s)) (jarrays s b))"
  shows "hasToSend g sent' b (c - n) s'" "ext s' = (False, False, sent')"
    "sent' @ take (c - n) (drop (nat (writeOffset s')) (jarrays s' b)) =
      sent @ take c (drop (nat (writeOffset s)) (jarrays s b))"
proof -
  have "length sent' = length sent + n" using assms(2,3) by (auto simp: sent'_def hasToSend_def)
  then show "hasToSend g sent' b (c - n) s'" "ext s' = (False, False, sent')"
    using assms(1-4) unfolding sent'_def [symmetric]
    by (auto simp: sends_def hasToSend_def of_nat_diff nat_add_distrib readFunction_def flag_simps)
  have "nat (writeOffset s') = nat (writeOffset s) + n" "jarrays s' = jarrays s"
    using assms(1,2) by (auto simp: sends_def hasToSend_def nat_add_distrib)
  then show "sent' @ take (c - n) (drop (nat (writeOffset s')) (jarrays s' b)) =
      sent @ take c (drop (nat (writeOffset s)) (jarrays s b))"
    using take_add [of n "c - n" "drop (nat (writeOffset s)) (jarrays s b)"] assms(3)
    by (simp add: sent'_def add.commute)
qed

section \<open>Performing\<close>

lemma wait_goes_on:
  assumes "takesBody room early later g api" "0 < timeout"
  shows "\<exists>ev'. waitStep api timeout stamp ev s = (Inr (currentTimeout s, stamp, ev'), s)"
proof -
  obtain t where t: "curl_multi_timeout api (ext s) = (t, ext s)" "0 < t"
    using takesBody_at(9,10) [OF assms(1), of "ext s"] by (metis prod.collapse)
  obtain ev' where "curl_multi_wait api (if timeout < t then timeout else t) (ext s) = ((CURLM_OK, ev'), ext s)" "ev' \<noteq> 0"
    using takesBody_at(11-13) [OF assms(1), of "if timeout < t then timeout else t" "ext s"] by (metis prod.collapse)
  then show ?thesis using t assms(2) by (simp add: waitStep_def Let_def)
qed

lemma loop_sends:
  assumes api: "takesBody room early later g api"
    and "hasToSend g sent b c s" "ext s = (False, False, sent)" "hasState s STATE_NEED_OUTPUT" "\<not> hasState s STATE_NEED_INPUT"
    and "0 < connTimeout s" "0 < readTimeout s" "0 < timeout"
  shows "\<exists>s'. performLoop api sc timeout stamp ev s = Some (False, s') \<and>
    sends g c s (sent @ take c (drop (nat (writeOffset s)) (jarrays s b))) s'"
  using assms(2-8)
proof (induction c arbitrary: s sent timeout ev rule: less_induct)
  case (less c)
  note at = takesBody_at [OF api] and q = takesBody_quiet [OF api]
  let ?res = "(CURLM_OK, 1 :: int)"
  obtain n s1 where s1: "runCurl sc (ask ?res room g (Suc (later sent)) sent) s = (?res, s1)" "n \<le> c"
    "sends g n s (sent @ take n (drop (nat (writeOffset s)) (jarrays s b))) s1"
    "0 < n \<or> hasState s1 STATE_SEND_PAUSED"
    using ask_sends [OF _ at(3) less.prems(1), of room sc ?res "Suc (later sent)"] at(1,2) by blast
  have need: "hasState s1 STATE_NEED_OUTPUT" "\<not> hasState s1 STATE_NEED_INPUT" "\<not> hasState s1 STATE_DONE_SENDING"
    "0 < connTimeout s1" "0 < readTimeout s1"
    using s1(3) less.prems(1,3-6) by (auto simp: sends_def hasToSend_def flag_simps)
  show ?case
  proof (cases "hasState s1 STATE_SEND_PAUSED")
    case True
    then have "waitsForCaller s1" using need(1) by (simp add: waitsForCaller_def)
    then have "performStep api sc timeout stamp ev s = Some (Inl False, s1)"
      using s1(1) less.prems(2) by (simp add: performStep_def q at del: ask.simps)
    moreover have "n = c" using True s1(2,3) less.prems(1) by (auto simp: sends_def hasToSend_def)
    ultimately show ?thesis using s1(3) by (simp add: performLoop.simps)
  next
    case False
    note left = sends_left [OF s1(3) less.prems(1) s1(2) False]
    have "\<not> waitsForCaller s1" "\<not> headersConsumed api s1"
      using need False by (simp_all add: waitsForCaller_def headersConsumed_def)
    moreover obtain ev' where "waitStep api timeout stamp ev s1 = (Inr (currentTimeout s1, stamp, ev'), s1)"
      using wait_goes_on [OF api less.prems(7)] by blast
    ultimately have step: "performStep api sc timeout stamp ev s = Some (Inr (currentTimeout s1, stamp, ev'), s1)"
      using s1(1) less.prems(2) by (simp add: performStep_def q at del: ask.simps)
    have "c - n < c" "0 < currentTimeout s1" using s1(2,4) False need(4,5) by (auto simp: currentTimeout_def)
    from less.IH [OF this(1) left(1,2) need(1,2,4,5) this(2), of ev'] obtain s' where
      s': "performLoop api sc (currentTimeout s1) stamp ev' s1 = Some (False, s')"
      "sends g (c - n) s1 (sent @ take c (drop (nat (writeOffset s)) (jarrays s b))) s'"
      unfolding left(3) by blast
    then show ?thesis
      using sends_more [OF s1(3) s'(2)] s1(2) step by (subst performLoop.simps) simp
  qed
qed

lemma perform_sends:
  assumes "takesBody room early later g api" "hasToSend g sent b c s" "ext s = (False, False, sent)"
    and "hasState s STATE_NEED_OUTPUT" "\<not> hasState s STATE_NEED_INPUT" "0 < connTimeout s" "0 < readTimeout s"
  shows "\<exists>s'. curlPerform api sc s = Some (False, s') \<and>
    sends g c s (sent @ take c (drop (nat (writeOffset s)) (jarrays s b))) s'"
proof -
  have "0 < currentTimeout s" using assms(6,7) by (simp add: currentTimeout_def)
  from loop_sends [OF assms this] show ?thesis
    using takesBody_quiet(2) [OF assms(1), of s] by (auto simp: curlPerform_def Let_def case_prod_beta)
qed

section \<open>One write\<close>

lemma Curl_write_step:
  assumes api: "takesBody room early later g api" and free: "busy s = 0" and at: "sentSoFar g s sent" and c: "0 < c"
    and fits: "off + c \<le> length (jarrays s b)" "g \<noteq> 0 \<longrightarrow> length sent + c \<le> g"
  shows "\<exists>s'. Curl_write api sc i10n (Some b) (int off) (int c) s = Some (int c, s') \<and>
    sentSoFar g s' (sent @ take c (drop off (jarrays s b))) \<and> jarrays s' = jarrays s \<and> busy s' = 0 \<and> thrown s' = thrown s"
proof -
  define s0 where "s0 = prepareWrite i10n (Some b) (int off) (int c) (s\<lparr>busy := 1\<rparr>)"
  define u where "u = (if hasState s0 STATE_SEND_PAUSED then SET_SEND_UNPAUSED s0 else s0)"
  let ?sent = "sent @ take c (drop off (jarrays s b))"
  have nc: "\<not> complete g sent" using c fits(2) by (auto simp: complete_def)
  have s0: "ext s0 = (hasState s0 STATE_SEND_PAUSED, False, sent)" using at nc
    by (auto simp: s0_def prepareWrite_def sentSoFar_def flag_simps)
  have u: "hasToSend g sent b c u" "writeOffset u = int off" "jarrays u = jarrays s" "thrown u = thrown s"
    "uploadGoal u = uploadGoal s" "readFunction u = Read_callback" "hasState u STATE_NEED_OUTPUT"
    "\<not> hasState u STATE_NEED_INPUT" "\<not> hasState u STATE_DONE_SENDING" "countToWrite u = int c"
    "0 < connTimeout u" "0 < readTimeout u" "ext u = ext s0"
    using fits at nc
    by (auto simp: u_def s0_def prepareWrite_def hasToSend_def sentSoFar_def readFunction_def flag_simps)
  note q = takesBody_quiet [OF api] and cu = takesBody_at [OF api]
  have ug: "\<not> (uploadGoal s \<noteq> 0 \<and> uploadGoal s \<le> uploadedCount s)"
    using goal_reached [of "uploadGoal s" g "uploadedCount s" "length sent" 0] cu(3) at fits(2) c
    by (cases "g = 0") (auto simp: sentSoFar_def)
  have "\<exists>s2. sends g c u ?sent s2 \<and> Curl_write api sc i10n (Some b) (int off) (int c) s = Some (finishWrite (int c) s2)"
  proof (cases "hasState s0 STATE_SEND_PAUSED")
    case True
    obtain n s1 where s1: "runCurl sc (ask CURLE_OK room g (early sent) sent) u = (CURLE_OK, s1)" "n \<le> c"
      "sends g n u (sent @ take n (drop (nat (writeOffset u)) (jarrays u b))) s1"
      using ask_sends [OF _ cu(3) u(1), of room sc CURLE_OK "early sent"] cu(1,2) by blast
    have un: "unpause sc api (curl_easy_pause_send api) u = (False, s1)"
      using s0 u(13) s1(1) by (simp add: unpause_def cu)
    have left: "countToWrite s1 = int c - int n" using s1(3) u(10) by (simp add: sends_def)
    show ?thesis
    proof (cases "n = c")
      case True
      then show ?thesis
        using free ug \<open>hasState s0 STATE_SEND_PAUSED\<close> un left s1(3) u(2,3)
        by (intro exI [of _ s1]) (auto simp: Curl_write_def ACQUIRE_def Let_def q u_def simp flip: s0_def)
    next
      case False
      then have np: "\<not> hasState s1 STATE_SEND_PAUSED" using s1(2,3) left by (auto simp: sends_def)
      note rest = sends_left [OF s1(3) u(1) s1(2) np]
      have "hasState s1 STATE_NEED_OUTPUT" "\<not> hasState s1 STATE_NEED_INPUT" "0 < connTimeout s1" "0 < readTimeout s1"
        using s1(3) u(7,8,11,12) by (auto simp: sends_def flag_simps)
      from perform_sends [OF api rest(1,2) this, of sc] obtain s2 where s2: "curlPerform api sc s1 = Some (False, s2)"
        "sends g (c - n) s1 ?sent s2"
        unfolding rest(3) by (auto simp: u(2,3))
      have "sends g c u ?sent s2" using sends_more [OF s1(3) s2(2)] s1(2) by simp
      moreover have "0 < countToWrite s1" using left False s1(2) by simp
      ultimately show ?thesis
        using free ug \<open>hasState s0 STATE_SEND_PAUSED\<close> un s2(1)
        by (intro exI [of _ s2]) (auto simp: Curl_write_def ACQUIRE_def Let_def q u_def simp flip: s0_def)
    qed
  next
    case False
    then have "u = s0" "ext u = (False, False, sent)" using s0 u(13) by (simp_all add: u_def)
    moreover obtain s2 where "curlPerform api sc u = Some (False, s2)" "sends g c u ?sent s2"
      using perform_sends [OF api u(1) \<open>ext u = (False, False, sent)\<close> u(7,8,11,12), of sc] u(2,3) by auto
    ultimately show ?thesis
      using free ug False c u(10) by (intro exI [of _ s2]) (auto simp: Curl_write_def ACQUIRE_def Let_def q simp flip: s0_def)
  qed
  then obtain s2 where s2: "sends g c u ?sent s2"
    "Curl_write api sc i10n (Some b) (int off) (int c) s = Some (finishWrite (int c) s2)" by blast
  moreover have "readFunction s2 = Read_callback" using s2(1) u(6) by (simp add: sends_def readFunction_def)
  moreover have "uploadGoal s = of_nat g" using at by (simp add: sentSoFar_def)
  ultimately show ?thesis
    using u(3-5,8-12)
    by (auto simp: finishWrite_def Let_def sends_def sentSoFar_def RELEASE_def readFunction_def flag_simps)
qed

section \<open>Sequences of writes\<close>

text \<open>A sequence of writes, each with an array, an offset and a count: the values they return.\<close>

fun writeBody :: "upload curl_api \<Rightarrow> bool \<Rightarrow> int \<Rightarrow> (jref \<times> nat \<times> nat) list \<Rightarrow> upload native
    \<Rightarrow> (int list \<times> upload native) option" where
  "writeBody api sc i10n [] s = Some ([], s)"
| "writeBody api sc i10n ((b, off, c) # ws) s =
     (case Curl_write api sc i10n (Some b) (int off) (int c) s of
        None \<Rightarrow> None
      | Some (v, s') \<Rightarrow> map_option (\<lambda>(vs, s''). (v # vs, s'')) (writeBody api sc i10n ws s'))"

text \<open>The slices of the arrays in order, as far as they lie in them, and the number of their bytes.\<close>

definition slices :: "'w native \<Rightarrow> (jref \<times> nat \<times> nat) list \<Rightarrow> u8 list" where
  "slices s ws = concat (map (\<lambda>(b, off, c). take c (drop off (jarrays s b))) ws)"

definition slicesOk :: "'w native \<Rightarrow> (jref \<times> nat \<times> nat) list \<Rightarrow> bool" where
  "slicesOk s ws \<longleftrightarrow> (\<forall>(b, off, c) \<in> set ws. 0 < c \<and> off + c \<le> length (jarrays s b))"

lemma slices_simps [simp]:
  "slices s [] = []" "slices s ((b, off, c) # ws) = take c (drop off (jarrays s b)) @ slices s ws"
  "slicesOk s ((b, off, c) # ws) \<longleftrightarrow> 0 < c \<and> off + c \<le> length (jarrays s b) \<and> slicesOk s ws"
  by (auto simp: slices_def slicesOk_def)

lemma slices_cong: "jarrays s' = jarrays s \<Longrightarrow> slices s' ws = slices s ws \<and> slicesOk s' ws = slicesOk s ws"
  by (simp add: slices_def slicesOk_def)

lemma writeBody_stream:
  assumes "takesBody room early later g api" "busy s = 0" "sentSoFar g s sent" "slicesOk s ws"
    and "g \<noteq> 0 \<longrightarrow> length sent + length (slices s ws) \<le> g"
  shows "\<exists>s'. writeBody api sc i10n ws s = Some (map (\<lambda>(b, off, c). int c) ws, s') \<and> busy s' = 0 \<and> thrown s' = thrown s \<and>
    sentSoFar g s' (sent @ slices s ws)"
  using assms(2-5)
proof (induction ws arbitrary: s sent)
  case (Cons x ws)
  obtain b off c where x: "x = (b, off, c)" by (cases x) auto
  have c: "0 < c" "off + c \<le> length (jarrays s b)" "g \<noteq> 0 \<longrightarrow> length sent + c \<le> g"
    using Cons.prems(3,4) by (auto simp: x)
  obtain s' where s': "Curl_write api sc i10n (Some b) (int off) (int c) s = Some (int c, s')"
    "sentSoFar g s' (sent @ take c (drop off (jarrays s b)))" "jarrays s' = jarrays s" "busy s' = 0" "thrown s' = thrown s"
    using Curl_write_step [OF assms(1) Cons.prems(1,2) c] by blast
  show ?case
    using Cons.IH [OF s'(4,2)] Cons.prems(3,4) s'(1,5) slices_cong [OF s'(3), of ws] by (auto simp: x)
qed auto

section \<open>The end of the body\<close>

text \<open>curl asks the callback that \<open>closeOutput\<close> installs, and learns that the body has ended.\<close>

lemma ask_ends:
  assumes "readFunction s = Eof_callback"
  shows "runCurl sc (ask res room 0 (Suc m) sent) s = (res, (SET_SEND_PAUSED s)\<lparr>ext := (False, True, sent)\<rparr>)"
  using assms by (simp add: complete_def answerRead_def eof_callback_def CURL_READFUNC_PAUSE_def)

lemma perform_ends:
  assumes api: "takesBody room early later 0 api" and "readFunction s = Eof_callback" "hasState s STATE_NEED_OUTPUT"
    and "ext s = (False, False, sent)"
  shows "curlPerform api sc s = Some (False, (SET_SEND_PAUSED s)\<lparr>ext := (False, True, sent)\<rparr>)"
proof -
  note q = takesBody_quiet [OF api] and cu = takesBody_at [OF api]
  let ?e = "(SET_SEND_PAUSED s)\<lparr>ext := (False, True, sent)\<rparr>"
  have "waitsForCaller ?e" using assms(3) by (simp add: waitsForCaller_def flag_simps)
  then have "performStep api sc t st 0 s = Some (Inl False, ?e)" for t st
    using assms(2,4) by (simp add: performStep_def q cu ask_ends del: ask.simps)
  then show ?thesis using q(2) [of s] by (simp add: curlPerform_def Let_def performLoop.simps case_prod_beta)
qed

lemma closeOutput_ends:
  assumes api: "takesBody room early later 0 api" and free: "busy s = 0" and at: "sentSoFar 0 s sent"
  shows "\<exists>s'. Curl_closeOutput api sc i10n s = Some s' \<and> ext s' = (False, True, sent) \<and> busy s' = 0 \<and> thrown s' = thrown s"
proof -
  define s2 where "s2 = setopt CURLOPT_READFUNCTION (OptFun Eof_callback) (SET_DONE_SENDING (SET_NEED_OUTPUT
    (s\<lparr>busy := 1, countToRead := 0, countToWrite := 0, interrupted := i10n, errorBuffer := []\<rparr>)))"
  let ?e = "\<lambda>s. (SET_SEND_PAUSED s)\<lparr>ext := (False, True, sent)\<rparr>"
  have s2: "readFunction s2 = Eof_callback" "hasState s2 STATE_NEED_OUTPUT" "thrown s2 = thrown s"
    "ext s2 = (hasState s2 STATE_SEND_PAUSED, False, sent)"
    using at by (auto simp: s2_def setopt_def readFunction_def sentSoFar_def complete_def flag_simps)
  have "\<exists>s3. Curl_closeOutput api sc i10n s = Some (RELEASE (SET_NEED_NO_OUTPUT (?e s3))) \<and> thrown s3 = thrown s"
  proof (cases "hasState s2 STATE_SEND_PAUSED")
    case True
    let ?u = "SET_SEND_UNPAUSED s2"
    have u: "readFunction ?u = Eof_callback" "ext ?u = (True, False, sent)" "hasState ?u STATE_NEED_OUTPUT"
      "\<not> hasState ?u STATE_SEND_PAUSED" "thrown ?u = thrown s"
      using s2 True by (simp_all add: readFunction_def flag_simps)
    show ?thesis
    proof (cases "early sent")
      case 0
      let ?v = "?u\<lparr>ext := (False, False, sent)\<rparr>"
      have "unpause sc api (curl_easy_pause_send api) ?u = (False, ?v)"
        using u(2) 0 by (simp add: unpause_def takesBody_at(4) [OF api] complete_def)
      moreover have "curlPerform api sc ?v = Some (False, ?e ?v)"
        using perform_ends [OF api, of ?v sent sc] u(1,3) by (simp add: readFunction_def hasState_def)
      moreover have "\<not> hasState ?v STATE_SEND_PAUSED" using u(4) by (simp add: hasState_def)
      ultimately show ?thesis
        using free True u(5) by (auto simp: Curl_closeOutput_def ACQUIRE_def Let_def simp flip: s2_def)
    next
      case (Suc k)
      then have "unpause sc api (curl_easy_pause_send api) ?u = (False, ?e ?u)"
        using u(1,2) by (simp add: unpause_def takesBody_at(4) [OF api] ask_ends del: ask.simps)
      moreover have "hasState (?e ?u) STATE_SEND_PAUSED" by (simp add: flag_simps)
      ultimately show ?thesis
        using free True u(5) by (auto simp: Curl_closeOutput_def ACQUIRE_def Let_def simp flip: s2_def)
    qed
  next
    case False
    then have "curlPerform api sc s2 = Some (False, ?e s2)" using perform_ends [OF api s2(1,2)] s2(4) by simp
    then show ?thesis
      using free False s2(3) by (auto simp: Curl_closeOutput_def ACQUIRE_def Let_def simp flip: s2_def)
  qed
  then show ?thesis by (auto simp: RELEASE_def)
qed

section \<open>Properties\<close>

text \<open>
  C5: writing a body.  curl asks for data with buffers of any sizes, any number of times in one
  \<open>curl_multi_perform\<close>, until the callback pauses or it has the announced number of bytes, and waits
  in between; taking back a pause may make it ask or not.  Any sequence of writes of slices of arrays,
  which together do not exceed that number, returns, each write the number of its bytes; what curl has
  sent at the end is what it had sent before and then the slices in order, and the flags and the count
  of bytes agree with it.
\<close>

theorem Curl_write_stream:
  assumes "takesBody room early later g api" "busy s = 0" "sentSoFar g s sent" "slicesOk s ws"
    and "g \<noteq> 0 \<longrightarrow> length sent + length (slices s ws) \<le> g"
  shows "\<exists>s'. writeBody api sc i10n ws s = Some (map (\<lambda>(b, off, c). int c) ws, s') \<and> busy s' = 0 \<and> thrown s' = thrown s \<and>
    sentSoFar g s' (sent @ slices s ws)"
  by (rule writeBody_stream [OF assms])

definition demoClient :: "nat \<Rightarrow> upload curl_api" where
  "demoClient g = \<lparr>curl_multi_perform = (\<lambda>(p, e, sent).
       if p \<or> e then Finished (CURLM_OK, 1) (p, e, sent) else ask (CURLM_OK, 1) (\<lambda>x. 2) g (Suc 0) sent),
     curl_easy_pause_recv = (\<lambda>w. Finished CURLE_OK w),
     curl_easy_pause_send = (\<lambda>(p, e, sent). if e then Finished CURLE_OK (p, e, sent) else ask CURLE_OK (\<lambda>x. 2) g 0 sent),
     curl_multi_timeout = (\<lambda>w. (100, w)), curl_multi_wait = (\<lambda>t w. ((CURLM_OK, 1), w)),
     curl_multi_info_read = (\<lambda>w. ((None, 0), w)), curl_multi_add_handle = (\<lambda>w. w),
     curl_multi_remove_handle = (\<lambda>w. w), curl_effective_url = (\<lambda>w. None), clock_gettime = (\<lambda>w. ((0, 0), w)),
     read_flag = (\<lambda>a w. (False, w)), easy_strerror = (\<lambda>c. []), multi_strerror = (\<lambda>c. []), location_key = 0\<rparr>"

definition demoUpload :: "nat \<Rightarrow> upload native" where
  "demoUpload g = (demoBody (False, False, []))\<lparr>uploadGoal := of_nat g, connTimeout := 1000, readTimeout := 1000\<rparr>"

lemma demo_upload:
  "g < 2 ^ 64 \<Longrightarrow> takesBody (\<lambda>x. 2) (\<lambda>x. 0) (\<lambda>x. 0) g (demoClient g)" "busy (demoUpload g) = 0" "sentSoFar g (demoUpload g) []"
  "slicesOk (demoUpload g) [(7, 0, 3), (8, 2, 2)]" "jarrays (demoUpload g) b = [1, 2, 3, 4]"
  by (auto simp: takesBody_def demoClient_def CURL_READFUNC_PAUSE_def sentSoFar_def demoUpload_def demoBody_def
      hasState_def readFunction_def complete_def slicesOk_def)

theorem Curl_write_stream_witness:
  "\<exists>s'. writeBody (demoClient 6) True 0 [(7, 0, 3), (8, 2, 2)] (demoUpload 6) = Some ([3, 2], s') \<and>
     sentSoFar 6 s' [1, 2, 3, 3, 4]"
  using Curl_write_stream [OF demo_upload(1-4) [of 6], of True 0] by (simp add: demo_upload del: writeBody.simps) blast

text \<open>
  C6: a whole request body.  When its length was announced curl has all of it after the last write.
  When it was not, \<open>closeOutput\<close> returns and curl has ended the body there: it has sent the slices in
  order and nothing else, nothing is thrown and the lock is free.
\<close>

theorem upload_whole_body:
  assumes "takesBody room early later g api" "busy s = 0" "sentSoFar g s []" "slicesOk s ws"
    and "g = 0 \<or> g = length (slices s ws)"
  shows "\<exists>s1. writeBody api sc i10n ws s = Some (map (\<lambda>(b, off, c). int c) ws, s1) \<and>
    (if g \<noteq> 0 then ext s1 = (False, True, slices s ws) \<and> busy s1 = 0 \<and> thrown s1 = thrown s
     else \<exists>s2. Curl_closeOutput api sc i10n' s1 = Some s2 \<and> ext s2 = (False, True, slices s ws) \<and>
       busy s2 = 0 \<and> thrown s2 = thrown s)"
proof -
  have "g \<noteq> 0 \<longrightarrow> length ([] :: u8 list) + length (slices s ws) \<le> g" using assms(5) by auto
  from writeBody_stream [OF assms(1-4) this]
  obtain s1 where s1: "writeBody api sc i10n ws s = Some (map (\<lambda>(b, off, c). int c) ws, s1)" "busy s1 = 0"
    "thrown s1 = thrown s" "sentSoFar g s1 (slices s ws)" by auto
  show ?thesis
  proof (cases "g = 0")
    case True
    then show ?thesis
      using closeOutput_ends [of room early later api s1 "slices s ws" sc i10n'] assms(1) s1 by auto
  next
    case False
    then have "ext s1 = (False, True, slices s ws)" using s1(4) assms(5) by (auto simp: sentSoFar_def complete_def)
    then show ?thesis using s1 False by simp
  qed
qed

theorem upload_whole_body_witness:
  "(\<exists>s1. writeBody (demoClient 5) True 0 [(7, 0, 3), (8, 2, 2)] (demoUpload 5) = Some ([3, 2], s1) \<and>
     ext s1 = (False, True, [1, 2, 3, 3, 4])) \<and>
   (\<exists>s1 s2. writeBody (demoClient 0) True 0 [(7, 0, 3), (8, 2, 2)] (demoUpload 0) = Some ([3, 2], s1) \<and>
     Curl_closeOutput (demoClient 0) True 0 s1 = Some s2 \<and> ext s2 = (False, True, [1, 2, 3, 3, 4]))"
  using upload_whole_body [OF demo_upload(1-4), of 5 True 0 0]
    upload_whole_body [OF demo_upload(1-4), of 0 True 0 0]
  by (auto simp: demo_upload simp del: writeBody.simps)

end
