(* ===== verification/PerformLaws.thy ===== *)
theory PerformLaws
  imports Perform ResponseLaws
begin

text \<open>
  The timeouts of \<open>curlPerform\<close>: what an iteration takes off the remaining time, and what this
  means for a connection on which nothing happens, with a clock that advances in big and in small
  steps.
\<close>

section \<open>The remaining time\<close>

text \<open>Whole milliseconds between two readings of the clock.\<close>

definition elapsedMs :: "int \<times> int \<Rightarrow> int \<times> int \<Rightarrow> int" where
  "elapsedMs t0 t1 = ((fst t1 - fst t0) * 1000000000 + (snd t1 - snd t0)) div 1000000"

lemma elapsedMs_split: "elapsedMs t0 t1 = (fst t1 - fst t0) * 1000 + (snd t1 - snd t0) div 1000000"
  using div_mult_self3 [of 1000000 "(fst t1 - fst t0) * 1000" "snd t1 - snd t0"]
  by (simp add: elapsedMs_def algebra_simps)

lemma timeoutLeft_elapsed:
  "timeoutLeft timeout t0 t1 =
     timeout - elapsedMs t0 t1 + (if snd t0 \<le> snd t1 then (snd t1 - snd t0) div 1000000 else 0)"
proof -
  have "(x + 1000000000) div 1000000 = x div 1000000 + 1000" for x :: int
    using div_mult_self2 [of 1000000 x 1000] by simp
  then show ?thesis unfolding timeoutLeft_def elapsedMs_split Let_def by simp
qed

section \<open>A connection on which nothing happens\<close>

text \<open>
  Nothing arrives and nobody interrupts: every call of curl succeeds with a running transfer,
  makes no callback and reports neither a finished transfer nor an event.
\<close>

definition stalled :: "'w curl_api \<Rightarrow> ('w \<Rightarrow> int \<times> int) \<Rightarrow> bool" where
  "stalled api clock \<longleftrightarrow>
     (\<forall>w. (\<exists>r. curl_multi_perform api w = Finished (CURLM_OK, r) w \<and> r \<noteq> 0) \<and>
          curl_multi_info_read api w = ((None, 0), w) \<and>
          clock_gettime api w = (clock w, w) \<and>
          (\<forall>a. read_flag api a w = (False, w)))"

text \<open>One iteration then ends with the wait and the clock.\<close>

lemma same_ext [simp]: "(s :: 'w native)\<lparr>ext := ext s\<rparr> = s"
  by simp

lemma stalled_step:
  assumes "stalled api clock" "\<not> waitsForCaller s" "\<not> headersConsumed api s"
  shows "performStep api sc timeout stamp ev s = Some (waitStep api timeout stamp ev s)"
proof -
  obtain r where r: "curl_multi_perform api (ext s) = Finished (CURLM_OK, r) (ext s)" "r \<noteq> 0"
    using assms(1) unfolding stalled_def by blast
  have quiet: "isInterrupted api s = (False, s)" "checkResult api s = Some (False, s)"
    using assms(1) by (simp_all add: stalled_def isInterrupted_def checkResult_def checkLoop.simps infoRead_def)
  show ?thesis by (simp add: performStep_def quiet r assms(2,3))
qed

lemma unchanged_state:
  "waitsForCaller (s\<lparr>ext := w\<rparr>) = waitsForCaller s" "headersConsumed api (s\<lparr>ext := w\<rparr>) = headersConsumed api s"
  by (simp_all add: waitsForCaller_def headersConsumed_def hasState_def)

subsection \<open>With a clock that advances\<close>

text \<open>
  curl has a timer, and a wait on which nothing happens takes a millisecond or more; it may end
  before the time that was asked for, or after it.
\<close>

definition waits :: "'w curl_api \<Rightarrow> ('w \<Rightarrow> int \<times> int) \<Rightarrow> bool" where
  "waits api clock \<longleftrightarrow>
     (\<forall>w. (\<exists>t. curl_multi_timeout api w = (t, w) \<and> 0 < t) \<and> 0 \<le> snd (clock w) \<and> snd (clock w) < 1000000000 \<and>
          (\<forall>t > 0. \<exists>w'. curl_multi_wait api t w = ((CURLM_OK, 0), w') \<and> 1 \<le> elapsedMs (clock w) (clock w')))"

lemma elapsedMs_trans: "elapsedMs t0 t1 + elapsedMs t1 t2 \<le> elapsedMs t0 t2"
proof -
  have "x div 1000000 + y div 1000000 \<le> (x + y) div (1000000 :: int)" for x y by linarith
  from this [of "snd t1 - snd t0" "snd t2 - snd t1"] show ?thesis by (simp add: elapsedMs_split)
qed

text \<open>
  An iteration takes off at most what has passed, and nothing at all when the wait was within one
  second of the clock; but then the clock comes nearer to the next second.
\<close>

lemma timeoutLeft_progress:
  assumes "1 \<le> elapsedMs t0 t1" "0 \<le> snd t0" "snd t1 < 1000000000"
  shows "timeoutLeft timeout t0 t1 < timeout \<or> timeoutLeft timeout t0 t1 = timeout \<and> snd t0 < snd t1"
    "timeout \<le> timeoutLeft timeout t0 t1 + elapsedMs t0 t1"
proof -
  define d where "d = (snd t1 - snd t0) div 1000000"
  have left: "timeoutLeft timeout t0 t1 = timeout - elapsedMs t0 t1 + (if snd t0 \<le> snd t1 then d else 0)"
    by (simp add: timeoutLeft_elapsed d_def)
  have E: "elapsedMs t0 t1 = (fst t1 - fst t0) * 1000 + d" by (simp add: elapsedMs_split d_def)
  have "d < 1000" using assms(2,3) unfolding d_def by linarith
  moreover have "0 \<le> q" if "1 \<le> q * 1000 + d" "d < 1000" for q d :: int using that by simp
  ultimately have sec: "0 \<le> fst t1 - fst t0" using assms(1) unfolding E by blast
  show "timeoutLeft timeout t0 t1 < timeout \<or> timeoutLeft timeout t0 t1 = timeout \<and> snd t0 < snd t1"
  proof (cases "snd t0 \<le> snd t1 \<and> fst t1 = fst t0")
    case True
    then have "1 \<le> d" using assms(1) E by simp
    then have "snd t0 < snd t1" unfolding d_def by linarith
    then show ?thesis using left E True by simp
  next
    case False
    then have "snd t1 < snd t0 \<or> 1 \<le> fst t1 - fst t0" using sec by linarith
    then show ?thesis using left E assms(1) by (cases "snd t0 \<le> snd t1") auto
  qed
  have "0 \<le> d" if "snd t0 \<le> snd t1" using that by (simp add: d_def pos_imp_zdiv_nonneg_iff)
  then show "timeout \<le> timeoutLeft timeout t0 t1 + elapsedMs t0 t1" using left by auto
qed

lemma one_wait:
  assumes "stalled api clock" "waits api clock" "0 < timeout"
  obtains w' where "1 \<le> elapsedMs (clock (ext s)) (clock w')"
    "waitStep api timeout (clock (ext s)) 0 s =
      (let t' = timeoutLeft timeout (clock (ext s)) (clock w'); s' = s\<lparr>ext := w'\<rparr>
       in if t' \<le> 0 then (Inl True, throwTimeout (int (unat (headerPairCount s))) s') else (Inr (t', clock w', 0), s'))"
proof -
  obtain t where t: "curl_multi_timeout api (ext s) = (t, ext s)" "0 < t"
    using assms(2) unfolding waits_def by blast
  define wt where "wt = (if timeout < t then timeout else t)"
  have "0 < wt" using t assms(3) by (simp add: wt_def)
  then obtain w' where w': "curl_multi_wait api wt (ext s) = ((CURLM_OK, 0), w')" "1 \<le> elapsedMs (clock (ext s)) (clock w')"
    using assms(2) unfolding waits_def by blast
  moreover have "clock_gettime api w' = (clock w', w')" using assms(1) by (simp add: stalled_def)
  ultimately show ?thesis
    using t \<open>0 < wt\<close> by (intro that [of w']) (simp_all add: waitStep_def clockNow_def Let_def flip: wt_def)
qed

lemma stalled_loop_times_out:
  assumes "stalled api clock" "waits api clock" "0 < timeout" "\<not> waitsForCaller s" "\<not> headersConsumed api s"
  shows "\<exists>w. performLoop api sc timeout (clock (ext s)) 0 s =
      Some (True, throwTimeout (int (unat (headerPairCount s))) (s\<lparr>ext := w\<rparr>)) \<and>
    timeout \<le> elapsedMs (clock (ext s)) (clock w)"
proof -
  define rank where "rank = (\<lambda>(timeout :: int, s). (nat timeout, nat (1000000000 - snd (clock (ext (s :: 'a native))))))"
  have "0 < timeout \<longrightarrow> \<not> waitsForCaller s \<longrightarrow> \<not> headersConsumed api s \<longrightarrow> ?thesis"
  proof (induction "(timeout, s)" arbitrary: timeout s rule: wf_induct_rule [OF wf_inv_image [OF wf_lex_prod [OF wf_less wf_less], where f = rank]])
    case 1
    show ?case
    proof (intro impI)
      assume s: "0 < timeout" "\<not> waitsForCaller s" "\<not> headersConsumed api s"
      obtain w' where w': "1 \<le> elapsedMs (clock (ext s)) (clock w')"
        "waitStep api timeout (clock (ext s)) 0 s =
          (let t' = timeoutLeft timeout (clock (ext s)) (clock w'); s' = s\<lparr>ext := w'\<rparr>
           in if t' \<le> 0 then (Inl True, throwTimeout (int (unat (headerPairCount s))) s') else (Inr (t', clock w', 0), s'))"
        using one_wait [OF assms(1,2) s(1)] by metis
      let ?t' = "timeoutLeft timeout (clock (ext s)) (clock w')" and ?s' = "s\<lparr>ext := w'\<rparr>"
      have clock: "0 \<le> snd (clock (ext s))" "snd (clock w') < 1000000000" using assms(2) unfolding waits_def by blast+
      note progress = timeoutLeft_progress [OF w'(1) clock, of timeout]
      have step: "performStep api sc timeout (clock (ext s)) 0 s = Some (waitStep api timeout (clock (ext s)) 0 s)"
        using stalled_step [OF assms(1) s(2,3)] .
      show "\<exists>w. performLoop api sc timeout (clock (ext s)) 0 s =
          Some (True, throwTimeout (int (unat (headerPairCount s))) (s\<lparr>ext := w\<rparr>)) \<and>
        timeout \<le> elapsedMs (clock (ext s)) (clock w)"
      proof (cases "?t' \<le> 0")
        case True
        then show ?thesis
          using progress(2) by (intro exI [of _ w'], subst performLoop.simps) (simp add: step w'(2) Let_def)
      next
        case False
        have "((?t', ?s'), (timeout, s)) \<in> inv_image ({(x, y). x < y} <*lex*> {(x, y). x < y}) rank"
          using progress(1) False clock(2) by (auto simp: rank_def)
        then obtain w where "performLoop api sc ?t' (clock w') 0 ?s' =
            Some (True, throwTimeout (int (unat (headerPairCount s))) (s\<lparr>ext := w\<rparr>))" "?t' \<le> elapsedMs (clock w') (clock w)"
          using 1 [of ?t' ?s'] False s(2,3) by (auto simp: unchanged_state)
        moreover have "timeout \<le> elapsedMs (clock (ext s)) (clock w)"
          using progress(2) elapsedMs_trans [of "clock (ext s)" "clock w'" "clock w"] calculation(2) by linarith
        ultimately show ?thesis
          using False by (intro exI [of _ w], subst performLoop.simps) (simp add: step w'(2) Let_def)
      qed
    qed
  qed
  then show ?thesis using assms(3-5) by blast
qed

subsection \<open>With a fast loop\<close>

definition spins :: "'w curl_api \<Rightarrow> ('w \<Rightarrow> int \<times> int) \<Rightarrow> bool" where
  "spins api clock \<longleftrightarrow>
     (\<forall>w. (\<exists>w'. curl_multi_timeout api w = (-1, w') \<and> elapsedMs (clock w) (clock w') = 0))"

lemma timeoutLeft_short: "elapsedMs t0 t1 = 0 \<Longrightarrow> timeout \<le> timeoutLeft timeout t0 t1"
  by (simp add: timeoutLeft_elapsed pos_imp_zdiv_nonneg_iff)

lemma spinning_loop:
  assumes "performLoop api sc timeout stamp ev s = Some y"
  shows "\<not> (stalled api clock \<and> spins api clock \<and> 0 < timeout \<and> ev = 0 \<and> stamp = clock (ext s) \<and>
    \<not> waitsForCaller s \<and> \<not> headersConsumed api s)"
proof (rule performLoop.raw_induct [where P = "\<lambda>api sc timeout stamp ev s y.
    \<not> (stalled api clock \<and> spins api clock \<and> 0 < timeout \<and> ev = 0 \<and> stamp = clock (ext s) \<and>
    \<not> waitsForCaller s \<and> \<not> headersConsumed api s)", OF _ assms])
  fix f :: "'a curl_api \<Rightarrow> bool \<Rightarrow> int \<Rightarrow> int \<times> int \<Rightarrow> int \<Rightarrow> 'a native \<Rightarrow> (bool \<times> 'a native) option"
    and api sc timeout stamp ev s y
  let ?ready = "\<lambda>api timeout stamp ev s. stalled api clock \<and> spins api clock \<and> 0 < timeout \<and> ev = 0 \<and>
    stamp = clock (ext s) \<and> \<not> waitsForCaller s \<and> \<not> headersConsumed api s"
  assume IH: "\<And>api sc timeout stamp ev s y. f api sc timeout stamp ev s = Some y \<Longrightarrow> \<not> ?ready api timeout stamp ev s"
  assume f: "(case performStep api sc timeout stamp ev s of
        None \<Rightarrow> None
      | Some (Inl r, s') \<Rightarrow> Some (r, s')
      | Some (Inr (timeout', stamp', fdEvents'), s') \<Rightarrow> f api sc timeout' stamp' fdEvents' s') = Some y"
  show "\<not> ?ready api timeout stamp ev s"
  proof
    assume r: "?ready api timeout stamp ev s"
    obtain w' where w': "curl_multi_timeout api (ext s) = (-1, w')" "elapsedMs (clock (ext s)) (clock w') = 0"
      using r unfolding spins_def by blast
    have now: "clock_gettime api w' = (clock w', w')" using r by (simp add: stalled_def)
    let ?t' = "timeoutLeft timeout (clock (ext s)) (clock w')"
    have "timeout \<le> ?t'" by (rule timeoutLeft_short [OF w'(2)])
    moreover have "performStep api sc timeout stamp ev s = Some (waitStep api timeout stamp ev s)"
      using stalled_step [of api clock s] r by blast
    ultimately have "f api sc ?t' (clock w') 0 (s\<lparr>ext := w'\<rparr>) = Some y"
      using f r w'(1) now by (simp add: waitStep_def clockNow_def Let_def)
    then show False using IH [of api sc ?t' "clock w'" 0 "s\<lparr>ext := w'\<rparr>" y] r \<open>timeout \<le> ?t'\<close>
      by (auto simp: unchanged_state)
  qed
qed

section \<open>Timeouts\<close>

text \<open>
  C13: the timeout works when there are waits.  On a connection on which nothing happens, if curl
  has a timer and a wait takes a millisecond or more, \<open>curlPerform\<close> returns and raises exactly one
  exception, the connect timeout before any header and the read timeout afterwards; and it does not
  do so before the time is over.
\<close>

theorem curlPerform_times_out:
  assumes "stalled api clock" "waits api clock" "0 < currentTimeout s"
    and "\<not> waitsForCaller s" "\<not> headersConsumed api s"
  shows "\<exists>w. curlPerform api sc s = Some (True, s\<lparr>ext := w, pending := True, thrown := thrown s @
    [ThrowException None (if headerPairCount s = 0 then ERROR_SOCKET_CONNECT_TIMEOUT else ERROR_SOCKET_READ_TIMEOUT) 0]\<rparr>) \<and>
    currentTimeout s \<le> elapsedMs (clock (ext s)) (clock w)"
proof -
  have "clockNow api s = (clock (ext s), s)" using assms(1) by (simp add: clockNow_def stalled_def)
  then have "curlPerform api sc s = performLoop api sc (currentTimeout s) (clock (ext s)) 0 s"
    by (simp add: curlPerform_def Let_def)
  moreover have "0 < uint (headerPairCount s) \<longleftrightarrow> headerPairCount s \<noteq> 0"
    by (simp add: word_neq_0_conv word_less_def)
  moreover obtain w where "performLoop api sc (currentTimeout s) (clock (ext s)) 0 s =
      Some (True, throwTimeout (int (unat (headerPairCount s))) (s\<lparr>ext := w\<rparr>))"
    "currentTimeout s \<le> elapsedMs (clock (ext s)) (clock w)"
    using stalled_loop_times_out [OF assms, of sc] by blast
  ultimately show ?thesis
    by (intro exI [of _ w]) (cases "headerPairCount s = 0", simp_all add: throwTimeout_def throwExn_def)
qed

text \<open>A stalled curl whose waits take the time that was asked for, and one without a timer; the world
  counts microseconds.\<close>

definition stalledApi :: "int \<Rightarrow> nat curl_api" where
  "stalledApi timer = \<lparr>curl_multi_perform = (\<lambda>w. Finished (CURLM_OK, 1) w),
     curl_easy_pause_recv = (\<lambda>w. Finished CURLE_OK w), curl_easy_pause_send = (\<lambda>w. Finished CURLE_OK w),
     curl_multi_timeout = (\<lambda>w. (timer, if timer > 0 then w else w + 100)),
     curl_multi_wait = (\<lambda>t w. ((CURLM_OK, 0), w + nat t * 1000)),
     curl_multi_info_read = (\<lambda>w. ((None, 0), w)), curl_multi_add_handle = id, curl_multi_remove_handle = id,
     curl_effective_url = (\<lambda>w. None),
     clock_gettime = (\<lambda>w. ((int w div 1000000, int w mod 1000000 * 1000), w)),
     read_flag = (\<lambda>a w. (False, w)),
     easy_strerror = (\<lambda>c. []), multi_strerror = (\<lambda>c. []), location_key = 0\<rparr>"

definition microClock :: "nat \<Rightarrow> int \<times> int" where
  "microClock w = (int w div 1000000, int w mod 1000000 * 1000)"

definition demoWaiting :: "nat native" where
  "demoWaiting = \<lparr>outHeaders = [], bufferForReceiving = None, bufferForSending = None,
     headers = freshMap hdrHash hdrEquals 3, headerPairs = (\<lambda>i. 0), headerBufSize = 20, headerPairCount = 0,
     maxHeaderLength = 0, uploadedCount = 0, uploadGoal = 0, state = 0, readOffset = 0, countToRead = 0,
     readOverflow = 0, writeOffset = 0, countToWrite = 0, connTimeout = 2500, readTimeout = 0, interrupted = 0,
     busy = 1, outHeaderCount = 0, errorBuffer = [], mem = demoMem, pairsBytes = 320, jarrays = (\<lambda>r. []), thrown = [], pending = False,
     easyOpts = (\<lambda>x. None), ext = 0\<rparr>"

lemma stalledApi_ok: "stalled (stalledApi timer) microClock"
  by (simp add: stalled_def stalledApi_def microClock_def)

lemma microClock_step: "elapsedMs (microClock w) (microClock (w + d)) = (int d * 1000) div 1000000"
proof -
  have recombine: "(a' - a) * 1000000000 + (b' * 1000 - b * 1000) = y * 1000"
    if "a' * 1000000 + b' = x + y" "a * 1000000 + b = x" for a a' b b' x y :: int
  proof -
    have "(a' - a) * 1000000000 + (b' * 1000 - b * 1000) = ((a' * 1000000 + b') - (a * 1000000 + b)) * 1000"
      by (simp add: algebra_simps)
    then show ?thesis unfolding that by simp
  qed
  have "(int (w + d) div 1000000 - int w div 1000000) * 1000000000 +
      (int (w + d) mod 1000000 * 1000 - int w mod 1000000 * 1000) = int d * 1000"
    by (rule recombine [of _ _ "int w"]) simp_all
  then show ?thesis by (simp add: elapsedMs_def microClock_def)
qed

lemma demoWaiting_waits: "\<not> waitsForCaller demoWaiting" "\<not> headersConsumed api demoWaiting"
  by (simp_all add: demoWaiting_def waitsForCaller_def headersConsumed_def hasState_def)

theorem curlPerform_times_out_witness:
  "\<exists>w. curlPerform (stalledApi 1000) False demoWaiting =
     Some (True, demoWaiting\<lparr>ext := w, pending := True, thrown := [ThrowException None ERROR_SOCKET_CONNECT_TIMEOUT 0]\<rparr>) \<and>
     2500 \<le> elapsedMs (microClock 0) (microClock w)"
proof -
  have "1 \<le> elapsedMs (microClock w) (microClock (w + nat t * 1000))" if "0 < t" for t w
  proof -
    have "int (nat t * 1000) * 1000 div 1000000 = t" using that by simp
    then show ?thesis using microClock_step [of w "nat t * 1000"] that by simp
  qed
  then have "waits (stalledApi 1000) microClock"
    by (simp add: waits_def stalledApi_def) (simp add: microClock_def)
  then show ?thesis
    using curlPerform_times_out [OF stalledApi_ok, of 1000 demoWaiting False] demoWaiting_waits
    by (simp add: currentTimeout_def demoWaiting_def)
qed

text \<open>
  C16: the timeout never fires when the loop is fast.  Where curl has no timer, \<open>curl_multi_timeout\<close>
  answers -1 and the loop does not wait; as long as an iteration takes less than a millisecond,
  nothing is ever taken off the remaining time, so that on a connection on which nothing happens
  \<open>curlPerform\<close> never returns, whatever the timeout.
\<close>

theorem curlPerform_spins_forever:
  assumes "stalled api clock" "spins api clock" "0 < currentTimeout s"
    and "\<not> waitsForCaller s" "\<not> headersConsumed api s"
  shows "curlPerform api sc s = None"
proof -
  have "clockNow api s = (clock (ext s), s)" using assms(1) by (simp add: clockNow_def stalled_def)
  then have "curlPerform api sc s = performLoop api sc (currentTimeout s) (clock (ext s)) 0 s"
    by (simp add: curlPerform_def Let_def)
  then show ?thesis
    using spinning_loop [of api sc "currentTimeout s" "clock (ext s)" 0 s _ clock] assms
    by (metis not_None_eq)
qed

theorem curlPerform_spins_forever_witness: "curlPerform (stalledApi (-1)) False demoWaiting = None"
proof (rule curlPerform_spins_forever [OF stalledApi_ok])
  show "spins (stalledApi (-1)) microClock"
    using microClock_step [of _ 100] by (simp add: spins_def stalledApi_def)
qed (simp_all add: demoWaiting_waits, simp add: currentTimeout_def demoWaiting_def)

end
