(* ===== verification/Interruption.thy ===== *)
theory Interruption
  imports SessionLaws PerformLaws
begin

text \<open>
  Interruption: another thread, or a signal, sets the flag that the caller of an entry point passes.
  Every entry point that drives curl then returns, and a \<open>read\<close>, \<open>write\<close> or \<open>nativeConfigure\<close> that
  finds the flag set does not perform the transfer.
\<close>

section \<open>A flag that is going to be set\<close>

text \<open>A run of curl ends in a state with the property, whatever the callbacks answer.\<close>

primrec leaves :: "('w \<Rightarrow> bool) \<Rightarrow> ('r, 'w) curl_run \<Rightarrow> bool" where
  "leaves P (Finished r w) = P w"
| "leaves P (AskData sz nitems k) = (\<forall>x. leaves P (k x))"
| "leaves P (GiveData data k) = (\<forall>n. leaves P (k n))"
| "leaves P (GiveHeader he p line k) = (\<forall>n. leaves P (k n))"
| "leaves P (SetError msg k) = leaves P k"

lemma leaves_run: "leaves P r \<Longrightarrow> P (ext (snd (runCurl sc r s)))"
  by (induction r arbitrary: s) (auto split: prod.split)

text \<open>
  The flag is found set after at most \<open>rank\<close> more looks at it: a look that finds it clear brings it
  nearer, and nothing moves it away.  The messages about finished transfers are \<open>queued\<close>, and
  reading one takes it from the queue.  Nothing else is said of curl, the network and the clock.
\<close>

definition interruptedSoon :: "'w curl_api \<Rightarrow> ('w \<Rightarrow> nat) \<Rightarrow> ('w \<Rightarrow> nat) \<Rightarrow> bool" where
  "interruptedSoon api rank queued \<longleftrightarrow>
     (\<forall>w. leaves (\<lambda>w'. rank w' \<le> rank w) (curl_multi_perform api w) \<and>
          rank (snd (curl_multi_timeout api w)) \<le> rank w \<and> rank (snd (clock_gettime api w)) \<le> rank w \<and>
          (\<forall>t. rank (snd (curl_multi_wait api t w)) \<le> rank w) \<and>
          (\<forall>a. fst (read_flag api a w) \<or> rank (snd (read_flag api a w)) < rank w) \<and>
          rank (snd (curl_multi_info_read api w)) \<le> rank w \<and>
          (snd (fst (curl_multi_info_read api w)) \<noteq> 0 \<longrightarrow> queued (snd (curl_multi_info_read api w)) < queued w))"

lemma interruptedSoon_at:
  assumes "interruptedSoon api rank queued"
  shows "rank (ext (snd (runCurl sc (curl_multi_perform api (ext s)) s))) \<le> rank (ext s)"
    "rank (snd (curl_multi_timeout api w)) \<le> rank w" "rank (ext (snd (clockNow api s))) \<le> rank (ext s)"
    "rank (snd (curl_multi_wait api t w)) \<le> rank w"
    "fst (isInterrupted api s) \<or> rank (ext (snd (isInterrupted api s))) < rank (ext s)"
    "rank (snd (curl_multi_info_read api w)) \<le> rank w"
    "snd (fst (curl_multi_info_read api w)) \<noteq> 0 \<Longrightarrow> queued (snd (curl_multi_info_read api w)) < queued w"
proof -
  have "leaves (\<lambda>w'. rank w' \<le> rank (ext s)) (curl_multi_perform api (ext s))"
    using assms unfolding interruptedSoon_def by blast
  from leaves_run [OF this]
  show "rank (ext (snd (runCurl sc (curl_multi_perform api (ext s)) s))) \<le> rank (ext s)" .
qed (use assms in \<open>auto simp: interruptedSoon_def isInterrupted_def clockNow_def case_prod_beta\<close>)

lemma ext_handleError [simp]:
  "ext (handleEasyError api r s) = ext s" "ext (handleMultiError api m s) = ext s"
  by (auto simp: handleEasyError_def handleMultiError_def errorDesc_def throwOther_def throwExn_def oomThrow_def Let_def
      split: option.split error_type.split)

section \<open>The loop\<close>

lemma checkLoop_returns:
  assumes "interruptedSoon api rank queued"
  shows "\<exists>r s'. checkLoop api n s = Some (r, s') \<and> rank (ext s') \<le> rank (ext s)"
proof (induction "queued (ext s)" arbitrary: n s rule: less_induct)
  case less
  obtain msg remaining w where i: "curl_multi_info_read api (ext s) = ((msg, remaining), w)" by (metis prod.exhaust)
  have w: "rank w \<le> rank (ext s)" "remaining \<noteq> 0 \<Longrightarrow> queued w < queued (ext s)"
    using interruptedSoon_at(6,7) [OF assms, of "ext s"] i by simp_all
  have "\<exists>r s'. checkLoop api (n + 1) (s\<lparr>ext := w\<rparr>) = Some (r, s') \<and> rank (ext s') \<le> rank w" if "remaining \<noteq> 0"
    using less [of "s\<lparr>ext := w\<rparr>" "n + 1"] w(2) [OF that] by simp
  then show ?case
    using w(1) by (subst checkLoop.simps) (auto simp: infoRead_def i split: option.split CURLMsg.split intro: order_trans)
qed

lemma waitStep_rank:
  assumes "interruptedSoon api rank queued"
  shows "rank (ext (snd (waitStep api timeout stamp ev s))) \<le> rank (ext s)"
proof -
  obtain t w where t: "curl_multi_timeout api (ext s) = (t, w)" by fastforce
  have w: "rank w \<le> rank (ext s)" using interruptedSoon_at(2) [OF assms, of "ext s"] t by simp
  have "rank (snd (curl_multi_wait api x w)) \<le> rank (ext s)" for x
    using interruptedSoon_at(4) [OF assms, of x w] w by simp
  moreover have "rank (ext (snd (clockNow api (s\<lparr>ext := v\<rparr>)))) \<le> rank (ext s)" if "rank v \<le> rank (ext s)" for v
    using interruptedSoon_at(3) [OF assms, of "s\<lparr>ext := v\<rparr>"] that by simp
  ultimately show ?thesis
    using w by (auto simp: waitStep_def t Let_def case_prod_beta throwTimeout_def throwExn_def)
qed

lemma performStep_returns:
  assumes "interruptedSoon api rank queued"
  shows "\<exists>r s'. performStep api sc timeout stamp ev s = Some (r, s') \<and> (isl r \<or> rank (ext s') < rank (ext s))"
proof -
  obtain stop s1 where i: "isInterrupted api s = (stop, s1)" by fastforce
  show ?thesis
  proof (cases stop)
    case False
    have s1: "rank (ext s1) < rank (ext s)" using interruptedSoon_at(5) [OF assms, of s] i False by simp
    obtain res running s2 where p: "runCurl sc (curl_multi_perform api (ext s1)) s1 = ((res, running), s2)" by (metis prod.exhaust)
    have s2: "rank (ext s2) \<le> rank (ext s1)" using interruptedSoon_at(1) [OF assms, of sc s1] p by simp
    obtain fin s3 where c: "checkResult api s2 = Some (fin, s3)" "rank (ext s3) \<le> rank (ext s2)"
      using checkLoop_returns [OF assms, of 0 s2] unfolding checkResult_def by blast
    obtain stop' s4 where i': "isInterrupted api s3 = (stop', s4)" by fastforce
    have s4: "stop' \<or> rank (ext s4) < rank (ext s3)" using interruptedSoon_at(5) [OF assms, of s3] i' by simp
    have "rank (ext (snd (waitStep api timeout stamp ev s4))) \<le> rank (ext s4)"
      by (rule waitStep_rank [OF assms])
    then show ?thesis
      using i False p c i' s1 s2 s4
      by (cases "waitStep api timeout stamp ev s4") (auto simp: performStep_def)
  qed (simp add: performStep_def i)
qed

lemma curlPerform_returns:
  assumes "interruptedSoon api rank queued"
  shows "\<exists>r s'. curlPerform api sc s = Some (r, s')"
proof -
  have "\<exists>r s'. performLoop api sc timeout stamp ev s = Some (r, s')" for timeout stamp ev s
  proof (induction "rank (ext s)" arbitrary: timeout stamp ev s rule: less_induct)
    case less
    obtain r s' where "performStep api sc timeout stamp ev s = Some (r, s')" "isl r \<or> rank (ext s') < rank (ext s)"
      using performStep_returns [OF assms] by blast
    then show ?case
      using less [of s'] by (subst performLoop.simps) (cases r, auto split: prod.split)
  qed
  then show ?thesis by (simp add: curlPerform_def Let_def case_prod_beta)
qed

lemma connectRequest_returns:
  assumes "interruptedSoon api rank queued"
  shows "\<exists>r. connectRequest api sc s = Some r"
proof -
  have check: "checkResult api s \<noteq> None" for s
    using checkLoop_returns [OF assms, of 0 s] unfolding checkResult_def by auto
  have perform: "curlPerform api sc s \<noteq> None" for s using curlPerform_returns [OF assms, of sc s] by auto
  have "connectRequest api sc s \<noteq> None"
    by (auto simp: connectRequest_def check perform split: prod.split option.split)
  then show ?thesis by blast
qed

section \<open>A flag that is set\<close>

lemma isInterrupted_set: "\<forall>a w. read_flag api a w = (True, w) \<Longrightarrow> isInterrupted api s = (True, s)"
  by (simp add: isInterrupted_def)

lemma lock_frame [simp]:
  "busy (prepareRead i10n buf off cnt s) = busy s" "busy (prepareWrite i10n buf off cnt s) = busy s"
  by (simp_all add: prepareRead_def prepareWrite_def SET_defs)

section \<open>Properties\<close>

text \<open>
  C14: an interrupted call returns.  Whatever curl, the network and the clock do, if the flag is found
  set after finitely many looks then \<open>read\<close>, \<open>write\<close>, \<open>closeOutput\<close> and \<open>nativeConfigure\<close> return, in
  every state; the lock is as it was, but after \<open>write\<close> when it raised \<open>ERROR_CLOSED\<close>.
\<close>

theorem interrupted_calls_return:
  fixes s :: "'w native"
  assumes "interruptedSoon api rank queued"
  shows "(\<exists>v s'. Curl_read api sc i10n buf off cnt s = Some (v, s') \<and> (busy s' = 0 \<longleftrightarrow> busy s = 0)) \<and>
    (\<exists>v s'. Curl_write api sc i10n buf off cnt s = Some (v, s') \<and>
       (busy s' = 0 \<or> busy s \<noteq> 0 \<or> closedError \<in> set (thrown s'))) \<and>
    (\<exists>s'. Curl_closeOutput api sc i10n s = Some s' \<and> (busy s' = 0 \<longleftrightarrow> busy s = 0)) \<and>
    (\<exists>u s'. nativeConfigure api ce sc c s = Some (u, s') \<and> (busy s' = 0 \<longleftrightarrow> busy s = 0))"
proof -
  have perform: "curlPerform api sc t \<noteq> None" for t using curlPerform_returns [OF assms, of sc t] by auto
  have connect: "connectRequest api sc t \<noteq> None" for t using connectRequest_returns [OF assms, of sc t] by auto
  have "Curl_read api sc i10n buf off cnt s \<noteq> None"
    by (auto simp: perform Curl_read_def Let_def split: prod.split option.split)
  moreover have "Curl_write api sc i10n buf off cnt s \<noteq> None"
    by (auto simp: perform Curl_write_def Let_def split: prod.split option.split)
  moreover have "Curl_closeOutput api sc i10n s \<noteq> None"
    by (auto simp: curlPerform_returns [OF assms] Curl_closeOutput_def Let_def split: prod.split)
  moreover have "nativeConfigure api ce sc c s \<noteq> None"
    by (auto simp: connect nativeConfigure_def Let_def split: prod.split option.split)
  ultimately obtain v s1 w s2 s3 u s4 where "Curl_read api sc i10n buf off cnt s = Some (v, s1)"
    "Curl_write api sc i10n buf off cnt s = Some (w, s2)" "Curl_closeOutput api sc i10n s = Some s3"
    "nativeConfigure api ce sc c s = Some (u, s4)" by fastforce
  then show ?thesis
    using read_call.lock_unchanged [of api sc i10n buf off cnt s s1] write_free [of api sc i10n buf off cnt s w s2]
      closeOutput_call.lock_unchanged [of api sc i10n s s3] configure_call.lock_unchanged [of api ce sc c s s4]
    by auto
qed

text \<open>The example: the world counts the looks at the flag down; nothing ever happens on the connection.\<close>

definition nudgedApi :: "nat curl_api" where
  "nudgedApi = (stalledApi (- 1))\<lparr>curl_multi_timeout := (\<lambda>w. (- 1, w)), read_flag := (\<lambda>a w. (w = 0, w - 1)),
     clock_gettime := (\<lambda>w. ((0, 0), w)), curl_multi_wait := (\<lambda>t w. ((CURLM_OK, 0), w))\<rparr>"

theorem interrupted_calls_return_witness:
  "\<exists>v s'. Curl_read nudgedApi True 0 (Some 7) 0 4 (demoWaiting\<lparr>busy := 0, ext := 100\<rparr>) = Some (v, s') \<and> busy s' = 0"
proof -
  have "interruptedSoon nudgedApi id (\<lambda>w. 0)" by (auto simp: interruptedSoon_def nudgedApi_def stalledApi_def)
  from interrupted_calls_return [OF this, of True 0 "Some 7" 0 4 "demoWaiting\<lparr>busy := 0, ext := 100\<rparr>"]
  show ?thesis by simp
qed

text \<open>
  C15: a call that finds the flag set does not perform the transfer.  A \<open>read\<close> or \<open>write\<close> that need
  not take back a pause returns with no byte transferred, no exception raised, curl and the arrays as
  they were and the lock free; the value of \<open>read\<close> is \<open>0\<close>, but for a single byte it is the offset it
  was called with.  One that finds the transfer paused takes the pause back before it looks at the
  flag: the callbacks that \<open>curl_easy_pause\<close> runs are run, and nothing else.  \<open>nativeConfigure\<close> sets the
  options and does not connect.
\<close>

theorem interrupted_call_skips_perform:
  fixes s :: "'w native"
  assumes "\<forall>a w. read_flag api a w = (True, w)" "busy s = 0"
  shows "(\<not> hasState s STATE_RECV_PAUSED \<longrightarrow>
      (\<exists>s'. Curl_read api sc i10n buf off cnt s = Some (if cnt = 1 then off else 0, s') \<and>
        ext s' = ext s \<and> jarrays s' = jarrays s \<and> thrown s' = thrown s \<and> busy s' = 0)) \<and>
    (hasState s STATE_RECV_PAUSED \<longrightarrow>
      Curl_read api sc i10n buf off cnt s =
        (case unpause sc api (curl_easy_pause_recv api) (SET_RECV_UNPAUSED (prepareRead i10n buf off cnt (s\<lparr>busy := 1\<rparr>))) of
           (failed, s') \<Rightarrow> Some (finishRead (if failed then -1 else readResult cnt s') s'))) \<and>
    (\<not> hasState s STATE_SEND_PAUSED \<and> (uploadGoal s = 0 \<or> uploadedCount s < uploadGoal s) \<longrightarrow>
      (\<exists>s'. Curl_write api sc i10n buf off cnt s = Some (0, s') \<and>
        ext s' = ext s \<and> jarrays s' = jarrays s \<and> thrown s' = thrown s \<and> busy s' = 0)) \<and>
    (hasState s STATE_SEND_PAUSED \<and> (uploadGoal s = 0 \<or> uploadedCount s < uploadGoal s) \<longrightarrow>
      Curl_write api sc i10n buf off cnt s =
        (case unpause sc api (curl_easy_pause_send api) (SET_SEND_UNPAUSED (prepareWrite i10n buf off cnt (s\<lparr>busy := 1\<rparr>))) of
           (failed, s') \<Rightarrow> Some (finishWrite cnt s'))) \<and>
    (url_ok ce \<longrightarrow> nativeConfigure api ce sc c s = Some (Some (url c), RELEASE (applyConfig api ce c
      (s\<lparr>busy := 1, countToRead := 0, countToWrite := 0, interrupted := i10nPtr c, errorBuffer := []\<rparr>))))"
proof (intro conjI impI)
  note stop = isInterrupted_set [OF assms(1)]
  let ?r = "prepareRead i10n buf off cnt (s\<lparr>busy := 1\<rparr>)" and ?w = "prepareWrite i10n buf off cnt (s\<lparr>busy := 1\<rparr>)"
  show "\<exists>s'. Curl_read api sc i10n buf off cnt s = Some (if cnt = 1 then off else 0, s') \<and>
      ext s' = ext s \<and> jarrays s' = jarrays s \<and> thrown s' = thrown s \<and> busy s' = 0"
    if "\<not> hasState s STATE_RECV_PAUSED"
  proof -
    have "\<not> hasState ?r STATE_RECV_PAUSED" using that by (simp add: prepareRead_def flag_simps)
    then have "Curl_read api sc i10n buf off cnt s = Some (if cnt = 1 then off else 0, RELEASE (SET_NEED_NO_INPUT ?r))"
      using assms(2)
      by (simp add: Curl_read_def ACQUIRE_def stop throwInterruptedException_def finishRead_def readResult_def)
        (simp add: prepareRead_def)
    then show ?thesis by (simp add: prepareRead_def RELEASE_def SET_defs)
  qed
  show "Curl_read api sc i10n buf off cnt s =
      (case unpause sc api (curl_easy_pause_recv api) (SET_RECV_UNPAUSED ?r) of
         (failed, s') \<Rightarrow> Some (finishRead (if failed then -1 else readResult cnt s') s'))"
    if "hasState s STATE_RECV_PAUSED"
  proof -
    have "hasState ?r STATE_RECV_PAUSED" using that by (simp add: prepareRead_def flag_simps)
    then show ?thesis
      using assms(2) by (simp add: Curl_read_def ACQUIRE_def stop throwInterruptedException_def Let_def split: prod.split)
  qed
  show "Curl_write api sc i10n buf off cnt s =
      (case unpause sc api (curl_easy_pause_send api) (SET_SEND_UNPAUSED ?w) of (failed, s') \<Rightarrow> Some (finishWrite cnt s'))"
    if "hasState s STATE_SEND_PAUSED \<and> (uploadGoal s = 0 \<or> uploadedCount s < uploadGoal s)"
  proof -
    have "hasState ?w STATE_SEND_PAUSED" using that by (simp add: prepareWrite_def flag_simps)
    then show ?thesis
      using assms(2) that
      by (auto simp: Curl_write_def ACQUIRE_def stop throwInterruptedException_def Let_def not_le split: prod.split)
  qed
  show "\<exists>s'. Curl_write api sc i10n buf off cnt s = Some (0, s') \<and>
      ext s' = ext s \<and> jarrays s' = jarrays s \<and> thrown s' = thrown s \<and> busy s' = 0"
    if "\<not> hasState s STATE_SEND_PAUSED \<and> (uploadGoal s = 0 \<or> uploadedCount s < uploadGoal s)"
  proof -
    have "\<not> hasState ?w STATE_SEND_PAUSED" using that by (simp add: prepareWrite_def flag_simps)
    then have "Curl_write api sc i10n buf off cnt s = Some (0, RELEASE (SET_NEED_NO_OUTPUT ?w))"
      using assms(2) that
      by (auto simp: Curl_write_def ACQUIRE_def stop throwInterruptedException_def finishWrite_def Let_def not_le)
        (simp_all add: prepareWrite_def RELEASE_def SET_defs)
    then show ?thesis by (simp add: prepareWrite_def RELEASE_def SET_defs)
  qed
  show "nativeConfigure api ce sc c s = Some (Some (url c), RELEASE (applyConfig api ce c
      (s\<lparr>busy := 1, countToRead := 0, countToWrite := 0, interrupted := i10nPtr c, errorBuffer := []\<rparr>)))" if "url_ok ce"
    using that assms(2) by (simp add: nativeConfigure_def ACQUIRE_def connectRequest_def stop throwInterruptedException_def)
qed

theorem interrupted_call_skips_perform_witness:
  "\<exists>s'. Curl_read (nudgedApi\<lparr>read_flag := (\<lambda>a w. (True, w))\<rparr>) True 0 (Some 7) 3 1 (demoWaiting\<lparr>busy := 0\<rparr>) = Some (3, s') \<and>
     ext s' = 0 \<and> thrown s' = [] \<and> busy s' = 0"
  using interrupted_call_skips_perform [of "nudgedApi\<lparr>read_flag := (\<lambda>a w. (True, w))\<rparr>" "demoWaiting\<lparr>busy := 0\<rparr>" True 0 "Some 7" 3 1]
  by (simp add: demoWaiting_def hasState_def) blast

end
