(* ===== verification/ConfigLaws.thy ===== *)
theory ConfigLaws
  imports SessionLaws
begin

text \<open>
  What creating and configuring a connection leaves behind: the options on the curl handle, the
  state flags and the fields that the other entry points rely on.
\<close>

section \<open>Options\<close>

lemma easyOpts_setopts [simp]:
  "easyOpts (setopts os s) opt = (case map_of (rev os) opt of Some v \<Rightarrow> Some v | None \<Rightarrow> easyOpts s opt)"
  unfolding setopts_def
proof (induction os arbitrary: s)
  case (Cons p os)
  obtain a v where "p = (a, v)" by fastforce
  then show ?case using Cons.IH by (auto simp: setopt_def map_add_def split: option.split)
qed simp

lemma setopts_state [simp]:
  "state (setopts os s) = state s" "uploadGoal (setopts os s) = uploadGoal s" "outHeaders (setopts os s) = outHeaders s"
  "thrown (setopts os s) = thrown s" "headers (setopts os s) = headers s" "headerPairCount (setopts os s) = headerPairCount s"
  unfolding setopts_def by (induction os arbitrary: s) (auto simp: setopt_def)

lemma setopt_fields [simp]:
  "easyOpts (setopt opt v s) = (easyOpts s)(opt \<mapsto> v)" "state (setopt opt v s) = state s"
  "uploadGoal (setopt opt v s) = uploadGoal s" "outHeaders (setopt opt v s) = outHeaders s"
  by (simp_all add: setopt_def)

lemma easyOpts_flags [simp]:
  "easyOpts (SET_ATTACHED s) = easyOpts s" "easyOpts (SET_DO_INPUT s) = easyOpts s"
  "easyOpts (SET_DO_NO_INPUT s) = easyOpts s" "easyOpts (SET_DO_OUTPUT s) = easyOpts s"
  "easyOpts (SET_DO_NO_OUTPUT s) = easyOpts s" "easyOpts (SET_HANDLE_REDIRECT s) = easyOpts s"
  "easyOpts (SET_DONT_HANDLE_REDIRECT s) = easyOpts s" "easyOpts (s\<lparr>uploadGoal := x\<rparr>) = easyOpts s"
  by (simp_all add: SET_defs)

lemma interfaceOption_fields [simp]:
  "state (interfaceOption ce c s) = state s" "uploadGoal (interfaceOption ce c s) = uploadGoal s"
  "opt \<noteq> CURLOPT_INTERFACE \<Longrightarrow> easyOpts (interfaceOption ce c s) opt = easyOpts s opt"
  by (auto simp: interfaceOption_def logFault_def noteWrites_def split: option.split)

lemma proxyOptions_only [simp]:
  "opt \<notin> {CURLOPT_PROXYTYPE, CURLOPT_PROXY, CURLOPT_PRE_PROXY} \<Longrightarrow> map_of (rev (proxyOptions ce c)) opt = None"
  by (auto simp: proxyOptions_def Let_def split: option.split)

lemma configured_state:
  "bit (state (applyConfig api ce c s)) n =
     (if n = 0 then True else if n = 1 then followRedirects c else if n = 2 then doInput c
      else if n = 4 then doOutput c \<and> fixedLength c \<noteq> 0 else bit (state s) n)"
  by (auto simp: applyConfig_def Let_def attach_def callbackOptions_def timeoutOptions_def uploadOptions_def
      redirectOptions_def flag_simps)

text \<open>What each stage of the configuration does to the options and to the fields.\<close>

lemma stage_options [simp]:
  "easyOpts (redirectOptions c s) = (easyOpts s)(CURLOPT_FOLLOWLOCATION \<mapsto> OptLong (if followRedirects c then 1 else 0))"
  "easyOpts (uploadOptions c s) = (easyOpts s)(CURLOPT_INFILESIZE_LARGE \<mapsto>
     OptLong (if doOutput c \<and> fixedLength c \<noteq> 0 then fixedLength c else -1))"
  "easyOpts (timeoutOptions c s) = easyOpts s"
  "easyOpts (attach api s) = easyOpts s"
  by (simp_all add: redirectOptions_def uploadOptions_def timeoutOptions_def attach_def)

lemma callback_options [simp]:
  "easyOpts (callbackOptions c s) opt =
     (if opt = CURLOPT_WRITEFUNCTION
      then Some (OptFun (if doInput c then Write_callback else if doOutput c then Skip_receive_callback
                         else Abort_receive_callback))
      else if opt = CURLOPT_READFUNCTION \<and> doOutput c then Some (OptFun Read_callback)
      else easyOpts s opt)"
  by (simp add: callbackOptions_def Let_def)

lemma stage_fields [simp]:
  "outHeaders (redirectOptions c s) = outHeaders s" "outHeaders (uploadOptions c s) = outHeaders s"
  "uploadGoal (uploadOptions c s) = (if doOutput c then of_int (fixedLength c) else 0)"
  "uploadGoal (callbackOptions c s) = uploadGoal s" "uploadGoal (attach api s) = uploadGoal s"
  "uploadGoal (timeoutOptions c s) = uploadGoal s"
  "readTimeout (callbackOptions c s) = readTimeout s" "readTimeout (attach api s) = readTimeout s"
  "connTimeout (callbackOptions c s) = connTimeout s" "connTimeout (attach api s) = connTimeout s"
  "readTimeout (timeoutOptions c s) = (if cfgReadTimeout c \<le> 0 then 2 ^ 31 - 1 else cfgReadTimeout c)"
  "connTimeout (timeoutOptions c s) = (if cfgConnTimeout c \<le> 0 then 2 ^ 31 - 1 else cfgConnTimeout c)"
  by (simp_all add: redirectOptions_def uploadOptions_def callbackOptions_def attach_def timeoutOptions_def
      setopt_def Let_def SET_defs)

lemma map_of_method [simp]:
  "opt \<notin> {CURLOPT_UPLOAD, CURLOPT_NOBODY, CURLOPT_HTTPGET, CURLOPT_CUSTOMREQUEST} \<Longrightarrow>
     map_of (rev (methodOptions c)) opt = None"
  by (auto simp: methodOptions_def)

lemma proxy_map [simp]:
  "map_of (rev (proxyOptions ce c)) CURLOPT_PRE_PROXY =
     (if proxy c \<noteq> None \<and> proxyType c = 3
      then Some (OptString (if utf_ok ce then Some (encodeUtf ce (the (proxy c))) else None)) else None)"
  "map_of (rev (proxyOptions ce c)) CURLOPT_PROXYTYPE =
     (if proxy c \<noteq> None \<and> proxyType c = 2 then Some (OptLong 2)
      else if proxy c \<noteq> None \<and> proxyType c = 4 then Some (OptLong 7) else None)"
  by (auto simp: proxyOptions_def Let_def split: option.split)

section \<open>Configuring\<close>

text \<open>
  C19: the configuration of a request sets, whatever was configured before, the flags, the direction
  and the goal of the upload, the callbacks that receive the body, the read and the connect timeout to
  their own values (the largest \<open>jint\<close> where Java passes none), the URL, the list of request headers,
  the length for curl and whether it follows redirects.  The callback that sends stays as it was when
  the request has no body.
\<close>

theorem applyConfig_settles:
  "let s' = applyConfig api ce c s in
     hasState s' STATE_ATTACHED \<and>
     hasState s' STATE_HANDLE_REDIRECT = followRedirects c \<and>
     hasState s' STATE_DO_INPUT = doInput c \<and>
     hasState s' STATE_DO_OUTPUT = (doOutput c \<and> fixedLength c \<noteq> 0) \<and>
     uploadGoal s' = (if doOutput c then of_int (fixedLength c) else 0) \<and>
     writeFunction s' = (if doInput c then Write_callback
       else if doOutput c then Skip_receive_callback else Abort_receive_callback) \<and>
     readFunction s' = (if doOutput c then Read_callback else readFunction s) \<and>
     readTimeout s' = (if cfgReadTimeout c \<le> 0 then 2 ^ 31 - 1 else cfgReadTimeout c) \<and>
     connTimeout s' = (if cfgConnTimeout c \<le> 0 then 2 ^ 31 - 1 else cfgConnTimeout c) \<and>
     easyOpts s' CURLOPT_INFILESIZE_LARGE = Some (OptLong (if doOutput c \<and> fixedLength c \<noteq> 0 then fixedLength c else -1)) \<and>
     easyOpts s' CURLOPT_FOLLOWLOCATION = Some (OptLong (if followRedirects c then 1 else 0)) \<and>
     easyOpts s' CURLOPT_URL = Some (OptString (Some (urlBytes c))) \<and>
     easyOpts s' CURLOPT_HTTPHEADER = Some (OptList (outHeaders s))"
proof -
  let ?s' = "applyConfig api ce c s"
  have flags: "hasState ?s' STATE_ATTACHED" "hasState ?s' STATE_HANDLE_REDIRECT = followRedirects c"
    "hasState ?s' STATE_DO_INPUT = doInput c" "hasState ?s' STATE_DO_OUTPUT = (doOutput c \<and> fixedLength c \<noteq> 0)"
    by (simp_all add: hasState_bit configured_state)
  have fields: "uploadGoal ?s' = (if doOutput c then of_int (fixedLength c) else 0)"
    "readTimeout ?s' = (if cfgReadTimeout c \<le> 0 then 2 ^ 31 - 1 else cfgReadTimeout c)"
    "connTimeout ?s' = (if cfgConnTimeout c \<le> 0 then 2 ^ 31 - 1 else cfgConnTimeout c)"
    by (simp_all add: applyConfig_def Let_def)
  have options: "easyOpts ?s' CURLOPT_URL = Some (OptString (Some (urlBytes c)))"
    "easyOpts ?s' CURLOPT_HTTPHEADER = Some (OptList (outHeaders s))"
    "easyOpts ?s' CURLOPT_INFILESIZE_LARGE = Some (OptLong (if doOutput c \<and> fixedLength c \<noteq> 0 then fixedLength c else -1))"
    "easyOpts ?s' CURLOPT_FOLLOWLOCATION = Some (OptLong (if followRedirects c then 1 else 0))"
    by (simp_all add: applyConfig_def dnsOption_def Let_def map_add_def)
  have callbacks: "writeFunction ?s' = (if doInput c then Write_callback
       else if doOutput c then Skip_receive_callback else Abort_receive_callback)"
    "readFunction ?s' = (if doOutput c then Read_callback else readFunction s)"
    by (simp_all add: writeFunction_def readFunction_def applyConfig_def dnsOption_def Let_def map_add_def)
  show ?thesis unfolding Let_def using flags fields options callbacks by blast
qed

text \<open>
  C35: proxies outlive the request they were set for.  A request without a proxy disables the main
  proxy, but a SOCKS pre-proxy and the type of proxy stay what an earlier request made them; nor does
  a request with a plain HTTP proxy set the type.
\<close>

theorem proxy_settings_persist:
  "easyOpts (applyConfig api ce c s) CURLOPT_PRE_PROXY =
     (if proxy c \<noteq> None \<and> proxyType c = 3
      then Some (OptString (if utf_ok ce then Some (encodeUtf ce (the (proxy c))) else None))
      else easyOpts s CURLOPT_PRE_PROXY) \<and>
   easyOpts (applyConfig api ce c s) CURLOPT_PROXYTYPE =
     (if proxy c \<noteq> None \<and> proxyType c = 2 then Some (OptLong 2)
      else if proxy c \<noteq> None \<and> proxyType c = 4 then Some (OptLong 7)
      else easyOpts s CURLOPT_PROXYTYPE)"
  by (simp add: applyConfig_def dnsOption_def Let_def map_add_def)

section \<open>Creating\<close>

text \<open>
  C20: \<open>nativeCreate\<close> always returns.  When an allocation fails it raises one out-of-memory error;
  otherwise the connection is free, detached and without headers, its map is empty and well formed,
  and the verification of TLS certificates and host names is off, for the server and for the proxy,
  whatever the flags.
\<close>

theorem nativeCreate_total:
  "\<exists>r. nativeCreate cr flags pairs m ja th w = Some r \<and>
    (case r of
       Inl es \<Rightarrow> es = th @ [ThrowException None ERROR_OOM 0] \<and>
         \<not> (ctrl_ok cr \<and> pairs_ok cr \<and> malloc_ok (map_res cr) \<and> calloc_ok (map_res cr) \<and> easy_ok cr \<and> multi_ok cr)
     | Inr s \<Rightarrow> busy s = 0 \<and> state s = 0 \<and> headerPairCount s = 0 \<and> outHeaders s = [] \<and> uploadGoal s = 0 \<and>
         thrown s = th \<and> mapSize (headers s) = 0 \<and> hashmapFor K hdrHash hdrEquals m (headers s) \<and>
         easyOpts s CURLOPT_SSL_VERIFYPEER = Some (OptLong 0) \<and>
         easyOpts s CURLOPT_SSL_VERIFYHOST = Some (OptLong 0) \<and>
         easyOpts s CURLOPT_PROXY_SSL_VERIFYPEER = Some (OptLong 0) \<and>
         easyOpts s CURLOPT_PROXY_SSL_VERIFYHOST = Some (OptLong 0) \<and>
         writeFunction s = Write_callback \<and> readFunction s = Read_callback)"
proof (cases "ctrl_ok cr \<and> pairs_ok cr \<and> malloc_ok (map_res cr) \<and> calloc_ok (map_res cr) \<and> easy_ok cr \<and> multi_ok cr")
  case True
  let ?s = "setopts (createOptions flags) (zeroedData (freshMap hdrHash hdrEquals 5) pairs m ja th w)"
  have "nativeCreate cr flags pairs m ja th w = Some (Inr ?s)"
    using True by (simp add: nativeCreate_def default_buckets)
  moreover have "headerPairCount ?s = 0" "headers ?s = freshMap hdrHash hdrEquals 5" by (simp_all add: zeroedData_def)
  moreover have "hashmapFor K hdrHash hdrEquals m (freshMap hdrHash hdrEquals 5)" by (rule freshMap_ok) simp
  ultimately show ?thesis
    by (auto simp: createOptions_def writeFunction_def readFunction_def zeroedData_def freshMap_def)
next
  case False
  then show ?thesis by (auto simp: nativeCreate_def default_buckets)
qed

section \<open>The URL after redirects\<close>

lemma toJchar_low: "n < 8 \<Longrightarrow> bit (toJchar sc b) n = bit b n"
  by (auto simp: toJchar_def bit_signed_iff bit_unsigned_iff min_def less_Suc_eq numeral_eq_Suc)

lemma toJchar_zero [simp]: "toJchar sc b = 0 \<longleftrightarrow> b = 0"
proof
  assume "toJchar sc b = 0"
  then have "bit b n = bit (0 :: u8) n" if "n < 8" for n using toJchar_low [OF that, of sc b] by simp
  then show "b = 0" by (intro bit_word_eqI) simp
qed (simp add: toJchar_def)

lemma storeUrl_string:
  assumes "0 \<notin> set new"
  shows "takeWhile (\<lambda>x. x \<noteq> 0) (storeUrl sc new old) = map (toJchar sc) new"
proof -
  have "takeWhile (\<lambda>x. x \<noteq> 0) (map (toJchar sc) new @ rest) = map (toJchar sc) new @ takeWhile (\<lambda>x. x \<noteq> 0) rest" for rest
    using assms by (intro takeWhile_append2) auto
  from this [of "[]"] this [of "0 # drop (Suc (length new)) old"] show ?thesis
    by (simp add: storeUrl_def Let_def)
qed

text \<open>
  C31: when curl followed redirects to another URL, the character array that goes back to Java, read
  up to its first NUL or to its end, is that URL; the array is reused when it is long enough and
  then keeps its length.  Without a redirect the array is the one Java passed.
\<close>

theorem redirectedUrl_readable:
  assumes "curl_effective_url api (ext s) = Some new" "0 \<notin> set new" "array_alloc_ok ce"
  shows "\<exists>u. redirectedUrl api ce sc c s = (Some u, s) \<and>
    (if followRedirects c \<and> new \<noteq> urlBytes c
     then takeWhile (\<lambda>x. x \<noteq> 0) u = map (toJchar sc) new \<and> length u = max (length (url c)) (length new)
     else u = url c)"
  using assms storeUrl_string [OF assms(2), of sc "url c"]
  by (auto simp: redirectedUrl_def storeUrl_def Let_def)

definition demoSetup :: config where
  "demoSetup = \<lparr>i10nPtr = 0, fixedLength = 0, url = map ucast (bytesOf ''http://a.org/x''), reqMethod = [],
     proxy = None, dns = None, ifName = None, urlLength = 14, cfgReadTimeout = 0, cfgConnTimeout = 0, proxyType = 0,
     reqType = 0, chunkLength = 0, followRedirects = True, doInput = True, doOutput = False\<rparr>"

definition demoCfgEnv :: cfg_env where
  "demoCfgEnv = \<lparr>url_ok = True, utf_ok = True, if_ok = True, array_alloc_ok = True, encodeUtf = map ucast\<rparr>"

theorem redirectedUrl_readable_witness:
  "\<exists>u. redirectedUrl (idleApi\<lparr>curl_effective_url := (\<lambda>w. Some (bytesOf ''http://b.org''))\<rparr>) demoCfgEnv True demoSetup demoNative
      = (Some u, demoNative) \<and>
    takeWhile (\<lambda>x. x \<noteq> 0) u = map (toJchar True) (bytesOf ''http://b.org'') \<and> length u = 14"
proof -
  have "0 \<notin> set (bytesOf ''http://b.org'')" "bytesOf ''http://b.org'' \<noteq> urlBytes demoSetup"
    "length (url demoSetup) = 14" "length (bytesOf ''http://b.org'') = 12" by code_simp+
  then show ?thesis
    using redirectedUrl_readable [of "idleApi\<lparr>curl_effective_url := (\<lambda>w. Some (bytesOf ''http://b.org''))\<rparr>" demoNative
        "bytesOf ''http://b.org''" demoCfgEnv True demoSetup]
    by (auto simp: demoCfgEnv_def demoSetup_def)
qed

end
