(* ===== verification/Fetch.thy ===== *)
theory Fetch
  imports BodyStream ConfigLaws
begin

text \<open>
  A whole request.  \<open>nativeConfigure\<close> sends it and returns when the head of the response has
  arrived; then Java reads the headers and the body.  This puts together the configuration, the
  header callback, the store of headers, the pause of curl and the reading of the body.
\<close>

section \<open>What storing a line leaves alone\<close>

definition lineFrame :: "'w native \<Rightarrow> _" where
  "lineFrame s =
     (busy s, easyOpts s, countToRead s, readOverflow s, ext s, jarrays s, \<lambda>k. k \<noteq> 9 \<and> bit (state s) k)"

lemma frame_flags [simp]:
  "lineFrame (SET_SEEN_HEADER_END s) = lineFrame s" "lineFrame (SET_SEEN_NO_HEADER_END s) = lineFrame s"
proof -
  have "f \<in> {SET_SEEN_HEADER_END, SET_SEEN_NO_HEADER_END} \<Longrightarrow>
      busy (f s) = busy s \<and> easyOpts (f s) = easyOpts s \<and> countToRead (f s) = countToRead s \<and>
      readOverflow (f s) = readOverflow s \<and> ext (f s) = ext s \<and> jarrays (f s) = jarrays s" for f
    by (auto simp: SET_defs)
  then show "lineFrame (SET_SEEN_HEADER_END s) = lineFrame s" "lineFrame (SET_SEEN_NO_HEADER_END s) = lineFrame s"
    by (auto simp: lineFrame_def flag_simps fun_eq_iff)
qed

lemma frame_fields [simp]:
  "lineFrame (s\<lparr>mem := m\<rparr>) = lineFrame s" "lineFrame (s\<lparr>headers := hm\<rparr>) = lineFrame s"
  "lineFrame (s\<lparr>headerPairCount := n\<rparr>) = lineFrame s" "lineFrame (releaseHeaders s) = lineFrame s"
  "lineFrame (logFault f s) = lineFrame s" "lineFrame (noteLength k s) = lineFrame s"
  by (simp_all add: lineFrame_def releaseHeaders_def logFault_def noteLength_def)

lemma frame_storing [simp]:
  "lineFrame (snd (beginResponse s)) = lineFrame s" "lineFrame (snd (linkHeader a k v s)) = lineFrame s"
  "lineFrame (snd (storePair r b c p q s)) = lineFrame s"
  by (simp add: beginResponse_def Let_def)
     (simp_all add: lineFrame_def linkHeader_def storePair_def headers_ensure_capacity_def oomThrow_def throwExn_def
        Let_def split: option.split)

lemma frame_header_callback [simp]: "lineFrame (snd (header_callback he p sz n s)) = lineFrame s"
  by (simp add: header_callback_def Let_def case_prod_beta)

lemma frame_lines [simp]: "lineFrame (afterLine l s) = lineFrame s" "lineFrame (fold afterLine ls s) = lineFrame s"
proof -
  show one: "lineFrame (afterLine l s) = lineFrame s" for l and s :: "'w native"
    by (simp add: afterLine_def answerHeader_def split: prod.split)
  show "lineFrame (fold afterLine ls s) = lineFrame s" for s :: "'w native"
    by (induction ls arbitrary: s) (simp_all add: one)
qed

section \<open>What configuring leaves alone\<close>

definition cfgFrame :: "'w native \<Rightarrow> _" where
  "cfgFrame s =
     (busy s, countToRead s, readOverflow s, jarrays s, thrown s, headers s, headerPairCount s, bit (state s) 9)"

lemma cfg_flags [simp]:
  "cfgFrame (SET_ATTACHED s) = cfgFrame s" "cfgFrame (SET_DO_INPUT s) = cfgFrame s"
  "cfgFrame (SET_DO_NO_INPUT s) = cfgFrame s" "cfgFrame (SET_DO_OUTPUT s) = cfgFrame s"
  "cfgFrame (SET_DO_NO_OUTPUT s) = cfgFrame s" "cfgFrame (SET_HANDLE_REDIRECT s) = cfgFrame s"
  "cfgFrame (SET_DONT_HANDLE_REDIRECT s) = cfgFrame s"
proof -
  have "f \<in> {SET_ATTACHED, SET_DO_INPUT, SET_DO_NO_INPUT, SET_DO_OUTPUT, SET_DO_NO_OUTPUT, SET_HANDLE_REDIRECT,
      SET_DONT_HANDLE_REDIRECT} \<Longrightarrow> busy (f s) = busy s \<and> countToRead (f s) = countToRead s \<and>
      readOverflow (f s) = readOverflow s \<and> jarrays (f s) = jarrays s \<and> thrown (f s) = thrown s \<and>
      headers (f s) = headers s \<and> headerPairCount (f s) = headerPairCount s" for f
    by (auto simp: SET_defs)
  then show "cfgFrame (SET_ATTACHED s) = cfgFrame s" "cfgFrame (SET_DO_INPUT s) = cfgFrame s"
    "cfgFrame (SET_DO_NO_INPUT s) = cfgFrame s" "cfgFrame (SET_DO_OUTPUT s) = cfgFrame s"
    "cfgFrame (SET_DO_NO_OUTPUT s) = cfgFrame s" "cfgFrame (SET_HANDLE_REDIRECT s) = cfgFrame s"
    "cfgFrame (SET_DONT_HANDLE_REDIRECT s) = cfgFrame s"
    by (auto simp: cfgFrame_def flag_simps)
qed

lemma cfg_fields [simp]:
  "cfgFrame (setopt opt v s) = cfgFrame s" "cfgFrame (s\<lparr>uploadGoal := g\<rparr>) = cfgFrame s"
  "cfgFrame (timeoutOptions c s) = cfgFrame s" "cfgFrame (s\<lparr>ext := w\<rparr>) = cfgFrame s"
  "cfgFrame (interfaceOption ce c s) = cfgFrame s"
  by (simp_all add: cfgFrame_def setopt_def timeoutOptions_def interfaceOption_def logFault_def noteWrites_def
      split: option.split)

lemma cfg_setopts [simp]: "cfgFrame (setopts os s) = cfgFrame s"
  unfolding setopts_def by (induction os arbitrary: s) auto

lemma cfg_applyConfig [simp]: "cfgFrame (applyConfig api ce c s) = cfgFrame s"
  by (simp add: applyConfig_def redirectOptions_def uploadOptions_def callbackOptions_def attach_def Let_def)

lemma ext_stages [simp]:
  "ext (setopt opt v s) = ext s" "ext (setopts os s) = ext s" "ext (redirectOptions c s) = ext s"
  "ext (uploadOptions c s) = ext s" "ext (callbackOptions c s) = ext s" "ext (timeoutOptions c s) = ext s"
  "ext (interfaceOption ce c s) = ext s"
proof -
  show opts: "ext (setopts os s) = ext s" for s :: "'w native"
    unfolding setopts_def by (induction os arbitrary: s) (auto simp: setopt_def)
qed (simp_all add: redirectOptions_def uploadOptions_def callbackOptions_def timeoutOptions_def interfaceOption_def
    setopt_def logFault_def noteWrites_def SET_defs Let_def split: option.split)

lemma ext_applyConfig:
  assumes "servesBody api"
  shows "ext (applyConfig api ce c s) = ext s"
  using servesBody_at(6) [OF assms] by (simp add: applyConfig_def attach_def SET_defs Let_def)

section \<open>Connecting\<close>

lemma thrown_header_callback:
  fixes s :: "'w native"
  assumes "realloc_ok he"
  shows "thrown (snd (header_callback he p sz n s)) = thrown s"
proof -
  have "thrown (snd (beginResponse s)) = thrown s" "thrown (snd (linkHeader a k v t)) = thrown t"
    "thrown (snd (storePair True b c x y t)) = thrown t" "thrown (noteLength m t) = thrown t"
    "thrown (SET_SEEN_HEADER_END t) = thrown t" "thrown (logFault f t) = thrown t" for a k v b c x y m f and t :: "'w native"
    by (simp_all add: beginResponse_def releaseHeaders_def SET_defs linkHeader_def storePair_def noteLength_def
        logFault_def headers_ensure_capacity_def Let_def split: option.split)
  then show ?thesis using assms by (simp add: header_callback_def Let_def case_prod_beta)
qed

lemma thrown_afterLine: "realloc_ok (fst l) \<Longrightarrow> thrown (afterLine l s) = thrown s"
  by (cases l) (simp add: afterLine_def answerHeader_buffer thrown_header_callback, simp add: inBuffer_def)

lemma thrown_lines: "goodLines N ls s \<Longrightarrow> thrown (fold afterLine ls s) = thrown s"
  by (induction ls arbitrary: s) (auto simp: thrown_afterLine goodLine_def goodSpace_def Let_def)

text \<open>A head that the store can take: see \<open>response_head_readable\<close>.\<close>

definition goodHead :: "u8 list set \<Rightarrow> head_line \<Rightarrow> head_line list \<Rightarrow> head_line \<Rightarrow> 'w native \<Rightarrow> bool" where
  "goodHead N first ls final s \<longleftrightarrow>
     (hasState s STATE_SEEN_HEADER_END \<or> entries (headers s) = [] \<and> headerPairCount s = 0) \<and>
     goodStatus first s \<and> goodLines N ls (afterLine first s) \<and> length ls + 1 < 2 ^ 16 \<and>
     (case final of (he, buf, line) \<Rightarrow>
        line = crlf \<and> unusedSpace (mem (fold afterLine (first # ls) s)) buf 2)"

lemma goodHead_run:
  fixes s :: "'w native"
  assumes "header_names N" "hashmapFor (keysIn N m0) hdrHash hdrEquals m0 (headers s)" "goodHead N first ls final s"
    and "head = first # ls @ [final]"
  shows "runCurl sc (giveLines bad head k) s = runCurl sc k (fold afterLine head s)"
    "hasState (fold afterLine head s) STATE_SEEN_HEADER_END"
    "storeInv N (fold afterLine head s) (parsedStatus first) (parsedLines ls (afterLine first s))"
    "thrown (fold afterLine head s) = thrown s"
proof -
  obtain he buf where f: "final = (he, buf, crlf)" using assms(3) by (auto simp: goodHead_def)
  have good: "hasState s STATE_SEEN_HEADER_END \<or> entries (headers s) = [] \<and> headerPairCount s = 0"
    "goodStatus first s" "goodLines N ls (afterLine first s)" "length ls + 1 < 2 ^ 16"
    "unusedSpace (mem (fold afterLine (first # ls) s)) buf 2"
    using assms(3) by (auto simp: goodHead_def f)
  note run = header_names.head_run [OF assms(1,2) good, where he = he]
  show "runCurl sc (giveLines bad head k) s = runCurl sc k (fold afterLine head s)"
    "hasState (fold afterLine head s) STATE_SEEN_HEADER_END"
    "storeInv N (fold afterLine head s) (parsedStatus first) (parsedLines ls (afterLine first s))"
    using run by (simp_all add: assms(4) f)
  have "thrown (afterLine first s) = thrown s"
    using good(2) by (intro thrown_afterLine) (auto simp: goodStatus_def goodSpace_def)
  moreover have "thrown (afterLine (he, buf, crlf) t) = thrown t" if "unusedSpace (mem t) buf 2" for t :: "'w native"
    using end_step [OF that, of he] by (simp add: afterLine_def SET_defs) (simp add: inBuffer_def)
  ultimately show "thrown (fold afterLine head s) = thrown s"
    using thrown_lines [OF good(3)] good(5) by (simp add: assms(4) f)
qed

text \<open>A body that the callback cannot take yet: curl is paused at its first block.\<close>

lemma deliver_pauses:
  assumes "countToRead s = 0" "writeFunction s = Write_callback" "ds \<noteq> []" "blocksOk ds"
  shows "runCurl sc (deliver res pr ds) s = (res ds, (SET_RECV_PAUSED s)\<lparr>ext := ([], True, ds, pr)\<rparr>)"
  using assms by (cases ds) (auto simp: answerWrite_def write_callback_def blocksOk_def)

lemma perform_paused_head:
  assumes "servesBody api" "ext s = ([], True, ds, Under_way)" "hasState s STATE_RECV_PAUSED"
    and "\<not> hasState s STATE_NEED_INPUT" "\<not> hasState s STATE_NEED_OUTPUT"
  shows "curlPerform api sc s = Some (False, s)"
proof -
  have "checkResult api s = Some (False, s)"
    using checkResult_body [OF assms(1,2)] assms(2) by (simp add: noticed_def)
  moreover have "\<not> waitsForCaller s" "headersConsumed api s"
    using assms(3-5) by (simp_all add: waitsForCaller_def headersConsumed_def)
  moreover have "fst (snd (ext s))" using assms(2) by simp
  ultimately have "performStep api sc t st 0 s = Some (Inl False, s)" for t st
    by (simp add: performStep_def quiet [OF assms(1)] servesBody_at [OF assms(1)] performRecv_def case_prod_beta)
  then show ?thesis
    using quiet(2) [OF assms(1), of s] by (simp add: curlPerform_def Let_def performLoop.simps case_prod_beta)
qed

lemma connectRequest_head:
  assumes api: "servesBody api" and names: "header_names N" "hashmapFor (keysIn N m0) hdrHash hdrEquals m0 (headers s)"
    and head: "goodHead N first ls final s" "ext s = (first # ls @ [final], False, ds, Under_way)"
    and body: "ds \<noteq> []" "blocksOk ds" "countToRead s = 0" "writeFunction s = Write_callback"
    and flags: "\<not> hasState s STATE_NEED_INPUT" "\<not> hasState s STATE_NEED_OUTPUT"
  shows "connectRequest api sc s =
    Some (False, (SET_RECV_PAUSED (fold afterLine (first # ls @ [final]) s))\<lparr>ext := ([], True, ds, Under_way)\<rparr>)"
proof -
  define s1 where "s1 = fold afterLine (first # ls @ [final]) s"
  define s2 where "s2 = (SET_RECV_PAUSED s1)\<lparr>ext := ([], True, ds, Under_way)\<rparr>"
  have "lineFrame s1 = lineFrame s" by (simp add: s1_def)
  then have s1: "countToRead s1 = 0" "writeFunction s1 = Write_callback"
    "\<not> hasState s1 STATE_NEED_INPUT" "\<not> hasState s1 STATE_NEED_OUTPUT"
    using body(3,4) flags by (auto simp: lineFrame_def writeFunction_def flag_simps fun_eq_iff)
  have s2: "ext s2 = ([], True, ds, Under_way)" "hasState s2 STATE_RECV_PAUSED" "\<not> hasState s2 STATE_NEED_INPUT"
    "\<not> hasState s2 STATE_NEED_OUTPUT"
    using s1(3,4) by (simp_all add: s2_def flag_simps)
  have "runCurl sc (curl_multi_perform api (ext s)) s = ((CURLM_OK, 1), s2)"
    by (simp add: deliver_pauses [OF s1(1,2) body(1,2)] servesBody_at [OF api] performRecv_def head(2) s2_def running_def body(1)
        goodHead_run(1) [OF names head(1) refl, folded s1_def]
        del: fold_simps giveLines.simps)
  then show ?thesis
    using perform_paused_head [OF api s2, of sc]
    unfolding s1_def [symmetric] s2_def [symmetric] by (simp add: connectRequest_def quiet [OF api])
qed

section \<open>A request from end to end\<close>

text \<open>The state in which \<open>nativeConfigure\<close> starts the transfer.\<close>

definition configured :: "'w curl_api \<Rightarrow> cfg_env \<Rightarrow> config \<Rightarrow> 'w native \<Rightarrow> 'w native" where
  "configured api ce c s =
     applyConfig api ce c (s\<lparr>busy := 1, countToRead := 0, countToWrite := 0, interrupted := i10nPtr c, errorBuffer := []\<rparr>)"

lemma configured_fields:
  assumes "servesBody api"
  shows "ext (configured api ce c s) = ext s" "countToRead (configured api ce c s) = 0"
    "readOverflow (configured api ce c s) = readOverflow s" "jarrays (configured api ce c s) = jarrays s"
    "thrown (configured api ce c s) = thrown s" "headers (configured api ce c s) = headers s"
    "doInput c \<Longrightarrow> writeFunction (configured api ce c s) = Write_callback"
    "k \<notin> {0, 1, 2, 4} \<Longrightarrow> bit (state (configured api ce c s)) k = bit (state s) k"
proof -
  have "cfgFrame (configured api ce c s) = cfgFrame (s\<lparr>busy := 1, countToRead := 0\<rparr>)"
    by (simp add: configured_def) (simp add: cfgFrame_def)
  then show "countToRead (configured api ce c s) = 0" "readOverflow (configured api ce c s) = readOverflow s"
    "jarrays (configured api ce c s) = jarrays s" "thrown (configured api ce c s) = thrown s"
    "headers (configured api ce c s) = headers s"
    by (simp_all add: cfgFrame_def)
  show "ext (configured api ce c s) = ext s" by (simp add: configured_def ext_applyConfig [OF assms])
  show "doInput c \<Longrightarrow> writeFunction (configured api ce c s) = Write_callback"
    by (simp add: configured_def writeFunction_def applyConfig_def dnsOption_def Let_def map_add_def)
  show "k \<notin> {0, 1, 2, 4} \<Longrightarrow> bit (state (configured api ce c s)) k = bit (state s) k"
    by (simp add: configured_def configured_state)
qed

text \<open>A connection that Java may configure: free, between calls, nothing of an old body left.\<close>

definition idle :: "'w native \<Rightarrow> bool" where
  "idle s \<longleftrightarrow> busy s = 0 \<and> readOverflow s = 0 \<and> \<not> hasState s STATE_NEED_INPUT \<and> \<not> hasState s STATE_NEED_OUTPUT"

lemma redirectedUrl_state: "array_alloc_ok ce \<Longrightarrow> snd (redirectedUrl api ce sc c s) = s"
  by (simp add: redirectedUrl_def split: option.split)

lemma nativeConfigure_head:
  assumes api: "servesBody api" and names: "header_names N" "hashmapFor (keysIn N m0) hdrHash hdrEquals m0 (headers s)"
    and idle: "idle s" and env: "url_ok ce" "array_alloc_ok ce" "doInput c"
    and head: "goodHead N first ls final (configured api ce c s)" "ext s = (first # ls @ [final], False, ds, Under_way)"
    and body: "ds \<noteq> []" "blocksOk ds"
  shows "\<exists>u s'. nativeConfigure api ce sc c s = Some (u, s') \<and>
    storeInv N s' (parsedStatus first) (parsedLines ls (afterLine first (configured api ce c s))) \<and> bodyAt s' (concat ds) \<and> busy s' = 0 \<and>
    thrown s' = thrown s \<and> jarrays s' = jarrays s \<and> writeFunction s' = Write_callback \<and>
    hasState s' STATE_SEEN_HEADER_END \<and> \<not> hasState s' STATE_NEED_OUTPUT \<and>
    mem s' = mem (fold afterLine (first # ls @ [final]) (configured api ce c s))"
proof -
  define s0 where "s0 = configured api ce c s"
  define s1 where "s1 = fold afterLine (first # ls @ [final]) s0"
  define s2 where "s2 = (SET_RECV_PAUSED s1)\<lparr>ext := ([], True, ds, Under_way)\<rparr>"
  note f = configured_fields [OF api, where ce = ce and c = c and s = s, folded s0_def]
  have flags: "\<not> hasState s0 STATE_NEED_INPUT" "\<not> hasState s0 STATE_NEED_OUTPUT" "readOverflow s0 = 0"
    using idle f(3) f(8) [of 6] f(8) [of 7] by (simp_all add: idle_def flag_simps)
  have con: "connectRequest api sc s0 = Some (False, s2)"
    unfolding s2_def s1_def
    by (rule connectRequest_head [OF api names(1) _ head(1) [folded s0_def] _ body])
       (use names(2) head(2) f env(3) flags in auto)
  have "nativeConfigure api ce sc c s =
      Some (fst (redirectedUrl api ce sc c s2), RELEASE s2)"
    using idle env con redirectedUrl_state [OF env(2), of api sc c s2]
    by (simp add: nativeConfigure_def ACQUIRE_def idle_def Let_def case_prod_beta s0_def configured_def)
  moreover note run = goodHead_run [OF names(1) _ head(1) [folded s0_def] refl, of m0, folded s1_def]
  have "lineFrame s1 = lineFrame s0" by (simp add: s1_def)
  then have s1: "readOverflow s1 = 0" "jarrays s1 = jarrays s" "writeFunction s1 = Write_callback"
    "\<not> hasState s1 STATE_NEED_OUTPUT"
    using flags f(4) f(7) [OF env(3)] by (auto simp: lineFrame_def writeFunction_def flag_simps fun_eq_iff)
  have inv: "storeInv N s1 (parsedStatus first) (parsedLines ls (afterLine first s0))" "hasState s1 STATE_SEEN_HEADER_END" "thrown s1 = thrown s"
    using run names(2) f(5,6) by auto
  have "storeInv N (RELEASE s2) (parsedStatus first) (parsedLines ls (afterLine first s0))" "mem (RELEASE s2) = mem s1"
    using inv(1) by (simp_all add: s2_def RELEASE_def SET_RECV_PAUSED_def storeInv_def statusOk_def slotOk_def)
  moreover have "bodyAt (RELEASE s2) (drop 0 (concat ds))"
    using body s1(1)
    by (intro bodyAtI [where paused = True and ds = ds and pr = Under_way]; cases ds) (auto simp: s2_def RELEASE_def flag_simps blocksOk_def)
  moreover have "busy (RELEASE s2) = 0" "thrown (RELEASE s2) = thrown s" "jarrays (RELEASE s2) = jarrays s"
    "writeFunction (RELEASE s2) = Write_callback" "hasState (RELEASE s2) STATE_SEEN_HEADER_END"
    "\<not> hasState (RELEASE s2) STATE_NEED_OUTPUT"
    using s1 inv(2,3) by (auto simp: s2_def RELEASE_def writeFunction_def flag_simps)
  ultimately show ?thesis unfolding s1_def s0_def by auto
qed

text \<open>
  C2: a request from end to end.  On an idle connection, with a server that answers with a status
  line, headers and a body in blocks, \<open>nativeConfigure\<close> returns without an exception; after it,
  \<open>header\<close> gives the status line and, by name, the last value of that name or null, as they were
  stored (\<open>response_head_readable\<close>), and any sequence of reads, of single bytes or into arrays at any
  offsets, gives what it gives on the stream of the body's bytes (\<open>Curl_read_to_end\<close>).
\<close>

theorem fetch_response:
  assumes "servesBody api" "header_names N" "hashmapFor (keysIn N m0) hdrHash hdrEquals m0 (headers s)"
    and "idle s" "url_ok ce" "array_alloc_ok ce" "doInput c" "string_ok je 0"
    and "goodHead N first ls final (configured api ce c s)" "ext s = (first # ls @ [final], False, ds, Under_way)"
    and "ds \<noteq> []" "blocksOk ds" "\<forall>rd \<in> set rs. fits rd (jarrays s)"
    and "kb = map ucast (take (nat l) strKey)" "0 \<notin> set kb" "lower kb \<in> N"
    and "unusedSpace (mem (fold afterLine (first # ls @ [final]) (configured api ce c s))) stk (Suc (length kb))"
  shows "\<exists>u s'. nativeConfigure api ce sc c s = Some (u, s') \<and> thrown s' = thrown s \<and>
    fst (Curl_header stk je None 0 s') = Some (headerText je (sname (parsedStatus first))) \<and>
    fst (Curl_header stk je (Some strKey) l s') =
      (let same = sameName (lower kb) (parsedLines ls (afterLine first (configured api ce c s)))
       in if same = [] then None else Some (headerText je (svalue (last same)))) \<and>
    map_option fst (readBody api sc i10n rs s') = Some (streamReads sc rs (concat ds) (jarrays s))"
proof -
  obtain u s' where s': "nativeConfigure api ce sc c s = Some (u, s')"
    "storeInv N s' (parsedStatus first) (parsedLines ls (afterLine first (configured api ce c s)))" "bodyAt s' (concat ds)" "busy s' = 0"
    "thrown s' = thrown s" "jarrays s' = jarrays s" "writeFunction s' = Write_callback"
    "\<not> hasState s' STATE_NEED_OUTPUT"
    "mem s' = mem (fold afterLine (first # ls @ [final]) (configured api ce c s))"
    using nativeConfigure_head [OF assms(1-7,9-12)] by blast
  have "map_option fst (readBody api sc i10n rs s') = Some (streamReads sc rs (concat ds) (jarrays s))"
    using readBody_stream [OF assms(1) s'(4,3,7,8)] assms(13) s'(6) by simp
  then show ?thesis
    using s'(1,5) header_names.Curl_header_status [OF assms(2) s'(2,4) assms(8), of stk]
      header_names.Curl_header_name [OF assms(2) s'(2,4) assms(8,14-16), of stk] assms(17) s'(9) by auto
qed

text \<open>The example: a status line without headers, and two blocks.\<close>

definition demoIdle :: "body native" where
  "demoIdle = demoBody ([demoFirst, (demoEnv, 1200, crlf)], False, [[10, 20, 30], [40, 50]], Under_way)"

abbreviation demoConfigured :: "body native" where
  "demoConfigured \<equiv> configured demoServer demoCfgEnv demoSetup demoIdle"

lemma demo_configured:
  "mem demoConfigured = demoMem" "headers demoConfigured = freshMap hdrHash hdrEquals 3" "headerPairCount demoConfigured = 0"
proof -
  have "cfgFrame demoConfigured = cfgFrame (demoIdle\<lparr>busy := 1, countToRead := 0\<rparr>)"
    by (simp add: configured_def) (simp add: cfgFrame_def)
  then show "headers demoConfigured = freshMap hdrHash hdrEquals 3" "headerPairCount demoConfigured = 0"
    by (simp_all add: cfgFrame_def demoIdle_def demoBody_def)
  show "mem demoConfigured = demoMem"
    by (simp add: configured_def applyConfig_def attach_def callbackOptions_def timeoutOptions_def interfaceOption_def
        uploadOptions_def redirectOptions_def setopt_def demoSetup_def demoIdle_def demoBody_def SET_defs Let_def)
qed

lemma demo_response_status: "goodStatus demoFirst demoConfigured"
proof -
  have "blocks (mem (snd (beginResponse (inBuffer 1000 line demoConfigured)))) q \<in> {[16 \<mapsto> 25] q, None}" for q line
    using beginResponse_blocks [of "inBuffer 1000 line demoConfigured" q]
    by (simp add: inBuffer_def demo_configured demoMem_def)
  then have "q = 16 \<and> n = 25" if "blocks (mem (snd (beginResponse (inBuffer 1000 line demoConfigured)))) q = Some n" for q n line
    using that by (metis fun_upd_apply insert_iff option.distinct(1) option.sel singletonD)
  then show ?thesis
    using demo_head(3,4,6,8) demo_blocks
    by (fastforce simp: goodStatus_def goodSpace_def demoFirst_def freshBlock_def unusedSpace_def outside_def)
qed

lemma demo_response_map:
  "hashmapFor (keysIn (set commonHeaders) demoMem) hdrHash hdrEquals demoMem (headers demoConfigured)"
  "entries (headers demoConfigured) = [] \<and> headerPairCount demoConfigured = 0"
  by (simp_all add: demo_configured freshMap_ok) (simp add: freshMap_def entries_def)

lemma demo_response_blocks:
  assumes "blocks (mem (afterLine demoFirst demoConfigured)) q = Some n"
  shows "(q, n) \<in> {(16, 25), (100, 25)}"
proof -
  have "storeInv (set commonHeaders) (afterLine demoFirst demoConfigured) (parsedStatus demoFirst) []"
    using common.status_step(2) [OF demo_response_map(1) disjI2 [OF demo_response_map(2)]] demo_response_status
    by (simp add: demoFirst_def)
  then have "blocks (mem (afterLine demoFirst demoConfigured)) 100 = Some 25"
    using storeInv_blocks [of _ _ "parsedStatus demoFirst" _ "parsedStatus demoFirst"] demo_head(1,6)
    by (fastforce simp: blockOk_def)
  moreover have "blocks (mem demoConfigured) q = Some n" if "q \<noteq> 100"
    using afterLine_blocks [OF assms [unfolded demoFirst_def]] that by simp
  ultimately show ?thesis using assms by (cases "q = 100") (auto simp: demo_configured demoMem_def split: if_splits)
qed

theorem fetch_response_witness:
  "\<exists>u s'. nativeConfigure demoServer demoCfgEnv True demoSetup demoIdle = Some (u, s') \<and> thrown s' = thrown demoIdle \<and>
     fst (Curl_header 5000 demoJvm None 0 s') = Some (headerText demoJvm (bytesOf ''HTTP/1.1 200 OK'')) \<and>
     fst (Curl_header 5000 demoJvm (Some demoKey) 3 s') = None \<and>
     map_option (map fst \<circ> fst) (readBody demoServer True 0 [(Some 7, 1, 2), (None, 0, 1), (Some 8, 0, 4), (None, 0, 1)] s') =
       Some [2, 30, 2, -1]"
proof -
  let ?s1 = "afterLine demoFirst demoConfigured" and ?blank = "(demoEnv, 1200, crlf)"
    and ?rs = "[(Some 7, 1, 2), (None, 0, 1), (Some 8, 0, 4), (None, 0, 1)] :: java_read list"
  have buf: "unusedSpace (mem ?s1) 1200 2" using demo_response_blocks by (fastforce simp: unusedSpace_def outside_def)
  then have good: "goodHead (set commonHeaders) demoFirst [] ?blank demoConfigured"
    using demo_response_status demo_response_map(2) by (simp add: goodHead_def)
  have "blocks (mem (afterLine ?blank ?s1)) = blocks (mem ?s1)"
    using end_step [OF buf, of demoEnv] by (simp add: afterLine_def [of ?blank]) (simp add: inBuffer_def)
  then have stk: "unusedSpace (mem (fold afterLine (demoFirst # [] @ [?blank]) demoConfigured)) 5000 (Suc (length (bytesOf ''AGE'')))"
    using demo_response_blocks by (fastforce simp: unusedSpace_def outside_def bytesOf_def)
  have start: "hashmapFor (keysIn (set commonHeaders) demoMem) hdrHash hdrEquals demoMem (headers demoIdle)" "idle demoIdle"
    "ext demoIdle = (demoFirst # [] @ [?blank], False, [[10, 20, 30], [40, 50]], Under_way)" "doInput demoSetup"
    "url_ok demoCfgEnv" "array_alloc_ok demoCfgEnv" "string_ok demoJvm 0" "blocksOk [[10, 20, 30], [40, 50]]"
    "\<forall>rd \<in> set [(Some 7, 1, 2), (None, 0, 1), (Some 8, 0, 4), (None, 0, 1)]. fits rd (jarrays demoIdle)"
    by (simp_all add: demoIdle_def demoBody_def idle_def hasState_def demoSetup_def demoCfgEnv_def demoJvm_def freshMap_ok
        blocksOk_def CURL_READFUNC_PAUSE_def fits_def)
  from fetch_response [OF demo_body(1) common.header_names_axioms start(1,2,5,6,4,7) good start(3) list.distinct(2) start(8,9)
      demo_key(1) [symmetric] demo_key(2,3) stk, of True 0]
  obtain u s' where s': "nativeConfigure demoServer demoCfgEnv True demoSetup demoIdle = Some (u, s')"
    "thrown s' = thrown demoIdle"
    "fst (Curl_header 5000 demoJvm None 0 s') = Some (headerText demoJvm (bytesOf ''HTTP/1.1 200 OK''))"
    "fst (Curl_header 5000 demoJvm (Some demoKey) 3 s') = None"
    "map_option fst (readBody demoServer True 0 ?rs s') =
       Some (streamReads True ?rs (concat [[10, 20, 30], [40, 50]]) (jarrays demoIdle))"
    by (auto simp add: demo_head(1) sameName_def simp del: readBody.simps streamReads.simps)
  have "map fst (streamReads True ?rs (concat [[10, 20, 30], [40, 50]]) (jarrays demoIdle)) = [2, 30, 2, -1]"
    by (simp add: readValue_def byteValue_def Let_def)
  then have "map_option (map fst \<circ> fst) (readBody demoServer True 0 ?rs s') = Some [2, 30, 2, -1]"
    unfolding option.map_comp [symmetric] s'(5) by simp
  then show ?thesis using s'(1-4) by blast
qed

end
