(* ===== verification/Startup.thy ===== *)
theory Startup
  imports HeaderStore
begin

text \<open>
  The parts of \<open>native-lib.c\<close> outside the life of a connection: the global references that
  \<open>nativeInit\<close> sets up, the system property with the DNS server, and the small callbacks that
  keep no state: the signal handler, the copies to and from direct buffers, the opening of a
  socket and the tracer of the debug mode.
\<close>

section \<open>Global references\<close>

text \<open>The static variables; \<open>None\<close> is NULL.  A value is an opaque reference.\<close>

record globals =
  getprop :: "nat option"
  wrapper :: "nat option"
  ioException :: "nat option"
  javaString :: "nat option"
  threadingCb :: "nat option"

text \<open>What the dynamic linker and the Java virtual machine answer.\<close>

record init_env =
  dlopen :: "string \<Rightarrow> nat option"
  dlsym :: "nat \<Rightarrow> string \<Rightarrow> nat option"
  FindClass :: "string \<Rightarrow> nat option"
  NewGlobalRef :: "nat \<Rightarrow> nat option"
  GetStaticMethodID :: "nat \<Rightarrow> string \<Rightarrow> string \<Rightarrow> nat option"

definition saveClassRef :: "init_env \<Rightarrow> string \<Rightarrow> nat option" where
  "saveClassRef e name = (case FindClass e name of None \<Rightarrow> None | Some found \<Rightarrow> NewGlobalRef e found)"

definition nativeInit :: "init_env \<Rightarrow> nat \<Rightarrow> globals \<Rightarrow> globals" where
  "nativeInit e curlWrapper g0 =
     (let g1 = (case dlopen e ''libc.so'' of
                  Some handle \<Rightarrow> g0\<lparr>getprop := dlsym e handle ''__system_property_get''\<rparr>
                | None \<Rightarrow> g0);
          g2 = g1\<lparr>wrapper := NewGlobalRef e curlWrapper\<rparr>
      in if wrapper g2 = None then g2
         else let g3 = g2\<lparr>ioException := saveClassRef e ''java/io/IOException''\<rparr>
         in if ioException g3 = None then g3
         else let g4 = g3\<lparr>javaString := saveClassRef e ''java/lang/String''\<rparr>
         in if javaString g4 = None then g4
         else g4\<lparr>threadingCb := GetStaticMethodID e curlWrapper ''throwException'' ''(Ljava/lang/String;II)V''\<rparr>)"

text \<open>\<open>JNI_OnLoad\<close> initialises curl, all of it and the EINTR flag, and answers the version.\<close>

definition JNI_OnLoad :: "(int \<Rightarrow> 'w \<Rightarrow> 'w) \<Rightarrow> 'w \<Rightarrow> int \<times> 'w" where
  "JNI_OnLoad curl_global_init w = (0x00010006, curl_global_init (3 + 4) w)"

section \<open>The DNS server of old systems\<close>

text \<open>
  \<open>property\<close> is what the function behind \<open>getprop\<close> stores, up to its NUL, and \<open>newString\<close> what
  \<open>NewStringUTF\<close> makes of it.  The C buffer has one byte more than the longest property.
\<close>

definition PROP_VALUE_MAX :: nat where "PROP_VALUE_MAX = 92"

definition Curl_getDnsCompat :: "(string \<Rightarrow> u8 list) \<Rightarrow> (u8 list \<Rightarrow> jstring option) \<Rightarrow> globals \<Rightarrow> jstring option" where
  "Curl_getDnsCompat property newString g =
     (if getprop g = None then None else newString (property ''net.dns1''))"

section \<open>Callbacks without state\<close>

text \<open>The handler stores a 32-bit 1 at the address that came with the signal (little endian).\<close>

definition interruption_handler :: "addr \<Rightarrow> cmem \<Rightarrow> cmem" where
  "interruption_handler ref m =
     (if ref \<noteq> 0 then m\<lparr>chars := writeBytes (chars m) ref [1, 0, 0, 0]\<rparr> else m)"

text \<open>Copies from and to a direct buffer, whose address the virtual machine tells.\<close>

definition buffer_read :: "(jref \<Rightarrow> addr) \<Rightarrow> jref \<Rightarrow> addr \<Rightarrow> nat \<Rightarrow> cmem \<Rightarrow> cmem" where
  "buffer_read directAddress dbuf buffer cnt m =
     m\<lparr>chars := writeBytes (chars m) buffer (memBytes (chars m) (directAddress dbuf) cnt)\<rparr>"

definition buffer_write :: "(jref \<Rightarrow> addr) \<Rightarrow> jref \<Rightarrow> addr \<Rightarrow> nat \<Rightarrow> cmem \<Rightarrow> cmem" where
  "buffer_write directAddress dbuf buffer cnt m =
     m\<lparr>chars := writeBytes (chars m) (directAddress dbuf) (memBytes (chars m) buffer cnt)\<rparr>"

definition opensocket_callback :: "(int \<Rightarrow> int \<Rightarrow> int \<Rightarrow> 'w \<Rightarrow> int \<times> 'w) \<Rightarrow> int \<times> int \<times> int \<Rightarrow> 'w \<Rightarrow> int \<times> 'w" where
  "opensocket_callback socket address w =
     (case address of (family, socktype, protocol) \<Rightarrow> socket family socktype protocol w)"

datatype curl_infotype =
    CURLINFO_TEXT | CURLINFO_HEADER_IN | CURLINFO_HEADER_OUT | CURLINFO_DATA_IN | CURLINFO_DATA_OUT
  | CURLINFO_SSL_DATA_IN | CURLINFO_SSL_DATA_OUT

text \<open>The log gets the data up to a NUL; traffic inside TLS is not logged.\<close>

definition logcat_tracer :: "curl_infotype \<Rightarrow> u8 list \<Rightarrow> u8 list list \<Rightarrow> int \<times> u8 list list" where
  "logcat_tracer type data log =
     (0, case type of
           CURLINFO_SSL_DATA_IN \<Rightarrow> log
         | CURLINFO_SSL_DATA_OUT \<Rightarrow> log
         | _ \<Rightarrow> log @ [takeWhile (\<lambda>x. x \<noteq> 0) data])"

section \<open>Initialisation\<close>

text \<open>
  \<open>nativeInit\<close> on the zeroed static variables stops at the first reference it cannot get, so
  that the last one, the method that raises every exception, is there only together with all the
  classes, and is there exactly when the virtual machine answered every request.
\<close>

lemma nativeInit_all_or_stop:
  "let g = nativeInit e w \<lparr>getprop = None, wrapper = None, ioException = None, javaString = None, threadingCb = None\<rparr>
   in if threadingCb g \<noteq> None
      then wrapper g = NewGlobalRef e w \<and> wrapper g \<noteq> None \<and>
           ioException g = saveClassRef e ''java/io/IOException'' \<and> ioException g \<noteq> None \<and>
           javaString g = saveClassRef e ''java/lang/String'' \<and> javaString g \<noteq> None
      else NewGlobalRef e w = None \<or> saveClassRef e ''java/io/IOException'' = None \<or>
           saveClassRef e ''java/lang/String'' = None \<or>
           GetStaticMethodID e w ''throwException'' ''(Ljava/lang/String;II)V'' = None"
  unfolding nativeInit_def Let_def by (auto split: option.split)

end
