(* ===== verification/Spec2Isabelle.thy ===== *)
theory Spec2Isabelle
  imports RequestLaws TransferLaws UploadStream Interruption Fetch Startup
begin

text \<open>
  \<^bold>\<open>A verification of the native part of chttpc.\<close>

  chttpc is an HTTP client for Android: a Java API (\<open>CurlConnection\<close>, \<open>CurlHttp\<close>) over a JNI
  library (\<open>src/lib/src/main/jni/native-lib.c\<close>) that drives libcurl, with a chained hash map
  (\<open>hashmap.c\<close>) for the response headers.  This development models the C code, all of
  \<open>hashmap.c\<close> and all functions of \<open>native-lib.c\<close>, and proves what makes it correct; where the
  code does not do what it means to, the theorem states what it does.

  \<^bold>\<open>The parts and how they interact.\<close>  Java holds a pointer to a \<open>struct curl_data\<close> and calls the
  entry points on it; each entry point but \<open>dispose\<close> and \<open>getLastFd\<close> first takes the spin lock
  \<open>busy\<close>.  \<open>nativeConfigure\<close> sets the options of a request on the curl handle and starts it;
  \<open>read\<close>, \<open>write\<close> and \<open>closeOutput\<close> unpause curl and run the loop \<open>curlPerform\<close>, in which curl
  calls back: \<open>header_callback\<close> for each header line, \<open>write_callback\<close> for the body of the
  response, \<open>read_callback\<close> for the body of the request.  The callbacks pause curl when the
  caller has to come back with another buffer.  The header functions read what
  \<open>header_callback\<close> stored, and edit the request headers.

  \<^bold>\<open>Theories.\<close>
  \<^item> \<open>Prelude\<close>: the integer types of the LP64 ABIs, named collections, generic lemmas.
  \<^item> \<open>KeyedMap\<close>: the locale \<open>keyed_map\<close>, the interface between a map and its clients: keys up to an
    equivalence, insertions that may fail, and the lemmas on whole histories of operations.
  \<^item> \<open>Hashmap\<close> and \<open>HashmapLaws\<close>: every function of \<open>hashmap.c\<close>, chains as lists; the invariant,
    the interpretation of \<open>keyed_map\<close>, refinement of a mathematical map, totality of the creation
    loop, injectivity of the secondary hash, iteration, errors.
  \<^item> \<open>CMemory\<close>: byte memory, \<open>malloc\<close> blocks and the string functions of the C library that the
    code calls; faults are logged.
  \<^item> \<open>HeaderKeys\<close>: \<open>hashCalc\<close> and \<open>hashKeyCompare\<close>, with the macro \<open>TOLOWER\<close> that evaluates its
    argument several times; the locale \<open>header_names\<close> for the sets of names on which these two are
    a key contract all the same, interpreted on the common response headers.
  \<^item> \<open>CurlData\<close>: \<open>struct curl_data\<close> as a record, its flag macros, the lock, the exceptions and the
    Java arrays.  The record \<open>native\<close> extends it by the memory, the Java side, the options on the
    curl handle and the state \<open>'w\<close> of curl and the operating system.
  \<^item> \<open>HeaderStore\<close>: \<open>header_callback\<close> and the functions that read response headers;
    \<open>ResponseHeaders\<close>, \<open>HeaderReading\<close> and \<open>ResponseLaws\<close>: the abstraction \<open>storeInv\<close> of blocks,
    rings, map and pair array to a list of headers, and the operations as operations on that list.
  \<^item> \<open>RequestHeaders\<close> and \<open>RequestLaws\<close>: the list of request header lines.
  \<^item> \<open>CurlApi\<close>: libcurl as a parameter.  A call that may call back is a finite tree of callbacks and
    continuations (\<open>curl_run\<close>); the error functions \<open>handleMultiError\<close> and \<open>handleEasyError\<close>.
  \<^item> \<open>Callbacks\<close> and \<open>CallbackLaws\<close>: the body callbacks, and what one call does to the buffers and
    counters.
  \<^item> \<open>Perform\<close> and \<open>PerformLaws\<close>: \<open>checkResult\<close> and \<open>curlPerform\<close>, and its timeouts.
  \<^item> \<open>ResponseRun\<close>: a whole response head from end to end, from the lines that curl passes during a
    run to the strings that \<open>header\<close> returns.  curl does not end a line with a NUL, so that the byte which
    memory has behind a line is part of the model: \<open>header_callback\<close> reads it (\<open>parsedLine\<close>).
  \<^item> \<open>Session\<close> and \<open>Config\<close>: the entry points.
  \<^item> \<open>DriverInvariants\<close>: which functions leave the lock and the header store alone, and the locales
    \<open>driver_invariant\<close> and \<open>entry_invariant\<close>: a predicate on these fields that \<open>header_callback\<close>
    and the clearing of the map keep is kept by every run of curl, by \<open>curlPerform\<close> and by every
    entry point; interpreted on the shape of the header map.
  \<^item> \<open>SessionLaws\<close>: the contract of an entry point towards the lock as the locales \<open>refusing_call\<close>
    and \<open>guarded_call\<close>, interpreted on every one of them, the calls as a step relation, the reachable
    states (\<open>dispose\<close> and \<open>getLastFd\<close>, which take no lock, included), and the invariants of the lock, of
    the header map and of the block behind the pair array.
  \<^item> \<open>BodyStream\<close> and \<open>UploadStream\<close>: the bodies as streams.  \<open>read\<close> on a body that curl has in blocks
    (\<open>servesBody\<close>) refines reading from the stream of its bytes (\<open>bodyAt\<close>, \<open>streamReads\<close>), into arrays and
    of single bytes; \<open>write\<close> refines appending to what curl has sent (\<open>takesBody\<close>, \<open>sentSoFar\<close>), with and
    without an announced length, one call at a time and over sequences of calls; \<open>closeOutput\<close> ends a
    body of unknown length.  In these models of curl \<open>curl_easy_pause\<close> delivers a block that was kept, and
    need not ask for data; the transfer goes on in \<open>curl_multi_perform\<close>, which reports one running transfer
    or none, and whose end is a message that \<open>curl_multi_info_read\<close> gives once.
  \<^item> \<open>Interruption\<close>: when the flag of the caller is going to be set (\<open>interruptedSoon\<close>) every entry point
    that drives curl returns, whatever curl does; when it is set, \<open>read\<close> and \<open>write\<close> at most take back a
    pause and do not perform the transfer.
  \<^item> \<open>TransferLaws\<close>: \<open>reset\<close> as a whole; \<open>ConfigLaws\<close>: what creation and configuration leave behind,
    and the URL after redirects.
  \<^item> \<open>Fetch\<close>: a request from end to end, which puts these parts together: \<open>nativeConfigure\<close> up to the end
    of the head, then \<open>header\<close> and any sequence of \<open>read\<close> calls.
  \<^item> \<open>Startup\<close>: the global references and the callbacks without state.

  \<^bold>\<open>Conventions.\<close>  \<open>uint16_t\<close>, \<open>uint32_t\<close>, \<open>uint64_t\<close> and \<open>size_t\<close> values are words of their
  width.  \<open>jint\<close> and \<open>int\<close> variables that count bytes of one buffer or milliseconds are integers;
  the callers keep them far from the limits.  What allocations, curl, the clock and the virtual
  machine answer are arguments of the definitions; nothing is assumed of them but the named
  hypotheses of the theorems, e.g. \<open>stalled\<close>, \<open>waits\<close>, \<open>spins\<close>, \<open>servesBody\<close>,
  \<open>takesBody\<close> or \<open>interruptedSoon\<close>.  Loops that
  the environment may keep running are \<open>partial_function (option)\<close>, with \<open>None\<close> for a call that
  never returns, and that a call returns is a theorem where it is claimed; the code is modelled without
  fuel.  In \<open>takesBody\<close>, a model of curl, curl asks a finite number of times in one call, since a run of
  curl is a finite tree; the number is arbitrary, at least one in \<open>curl_multi_perform\<close>.
  The exceptions raised are in \<open>thrown\<close>, in the order of the throws; \<open>pending\<close> is what \<open>ExceptionCheck\<close>
  answers, true from a throw on until the call has returned to Java (\<open>api_step\<close>).  The lengths that Java
  passes are those of its own strings and arrays, and the functions that give access to their characters
  (\<open>GetStringCritical\<close>, \<open>GetPrimitiveArrayCritical\<close>) do so.

  \<^bold>\<open>Not modelled.\<close>  The contents of freed memory and data races between threads (calls are atomic
  steps: the lock is what makes them so), the log output, and the lengths of \<open>alloca\<close> frames.
  The end of a body of announced length: there \<open>closeOutput\<close> waits for the response, which \<open>takesBody\<close> does
  not have.  \<open>linux_syscall_support.h\<close> is a vendored header of system call wrappers, and the wrapper in
  \<open>moar_syscall.h\<close> is called by nothing.  The Java classes are the callers.
\<close>

end
